theory Spec2Isabelle
  imports Complex_Main
begin

section \<open>The dashboard of src/src/App.tsx: data model\<close>

text \<open>
  The component \<open>App\<close> keeps three pieces of state that carry behaviour (the agent
  roster, the log, and the boot flag) and drives them from timer callbacks and from the
  command line. The embedding follows the source function by function.

  Conventions of the embedding:
  \<^item> a JavaScript \<open>number\<close> that the program computes with fractions (cpu, memory, a
    result of \<open>Math.random()\<close>) is a \<open>real\<close>; a \<open>number\<close> that only ever holds an
    integer (uptime, lastPing, an array index) is an \<open>int\<close> or a \<open>nat\<close>. Rounding of
    IEEE doubles is not modelled;
  \<^item> a string is a list of 8-bit characters, read as the code units below 256;
  \<^item> \<open>Date.now()\<close> and \<open>new Date()\<close> read the field \<open>clock\<close> of the state, a virtual
    time in milliseconds that only the scheduler advances;
  \<^item> \<open>Math.random()\<close> reads the next element of a stream of draws held in the state.
    The stream is arbitrary, so a theorem about the model holds for every outcome of
    the random number generator.
\<close>

datatype status = Active | Idle | Error | Offline

datatype log_type = Info | Success | Warning | ErrorLog | System

record Agent =
  agent_id :: string
  name :: string
  status :: status
  task :: string
  cpu :: real
  memory :: real
  uptime :: int
  lastPing :: int

text \<open>
  The \<open>id\<close> of a log entry is the string \<open>log-${Date.now()}-${Math.random()}\<close>; the
  model keeps its two components, the clock and the draw, instead of the string.
\<close>

record LogEntry =
  log_id :: "nat \<times> real"
  timestamp :: nat
  agent :: string
  type :: log_type
  message :: string

text \<open>A result of \<open>Math.random()\<close>: a number in the half-open interval from 0 to 1.\<close>

typedef draw = "{r::real. 0 \<le> r \<and> r < 1}"
  morphisms val Draw
  by (rule exI[of _ 0]) simp

text \<open>
  The functions that the program hands to \<open>setTimeout\<close> and \<open>setInterval\<close>. A closure
  is represented by the values it captured:
  \<^item> \<open>AddLogCb a t m\<close> is \<open>() => addLog(a, t, m)\<close>;
  \<^item> \<open>BootCompleteCb\<close> is \<open>() => setBootComplete(true)\<close>;
  \<^item> \<open>RestartDoneCb\<close> is the completion callback of the \<open>restart\<close> command;
  \<^item> \<open>TickCb\<close> is the callback of the 1500ms interval.
\<close>

datatype callback =
  AddLogCb (cb_agent: string) (cb_type: log_type) (cb_message: string)
| BootCompleteCb
| RestartDoneCb
| TickCb

record timer =
  due :: nat
  cb :: callback

datatype js_error = TypeError

record state =
  agents :: "Agent list"
  logs :: "LogEntry list"
  bootComplete :: bool
  timers :: "timer list"
  clock :: nat
  rng :: "nat \<Rightarrow> draw"
  drawn :: nat

section \<open>Library functions of the language\<close>

definition Math_random :: "state \<Rightarrow> real \<times> state" where
  "Math_random s = (val (rng s (drawn s)), s\<lparr>drawn := drawn s + 1\<rparr>)"

definition Math_floor :: "real \<Rightarrow> int" where
  "Math_floor x = \<lfloor>x\<rfloor>"

text \<open>\<open>Math.round\<close> rounds to the nearest integer, a tie towards plus infinity.\<close>

definition Math_round :: "real \<Rightarrow> int" where
  "Math_round x = \<lfloor>x + 1 / 2\<rfloor>"

text \<open>\<open>xs.slice(-n)\<close>: the last \<open>n\<close> elements, all of them when there are fewer.\<close>

definition slice_last :: "nat \<Rightarrow> 'a list \<Rightarrow> 'a list" where
  "slice_last n xs = drop (length xs - n) xs"

text \<open>\<open>xs[i]\<close> for an integer \<open>i\<close>: \<open>None\<close> stands for \<open>undefined\<close>.\<close>

definition index :: "'a list \<Rightarrow> int \<Rightarrow> 'a option" where
  "index xs i = (if 0 \<le> i \<and> nat i < length xs then Some (xs ! nat i) else None)"

text \<open>
  \<open>pool[Math.floor(r * pool.length)]\<close> for one of the constant pools of the source. The
  pools are not empty and \<open>r\<close> is a draw, so the index is in range (lemma
  \<open>random_index_less\<close>).
\<close>

definition random_index :: "nat \<Rightarrow> real \<Rightarrow> nat" where
  "random_index n r = nat (Math_floor (r * real n))"

definition pick :: "'a list \<Rightarrow> real \<Rightarrow> 'a" where
  "pick pool r = pool ! random_index (length pool) r"

text \<open>
  The conversion of an integer to a string that concatenation and template literals
  apply: the decimal digits, most significant first, behind a minus sign for a negative
  number. (JavaScript switches to exponent notation from \<open>1e21\<close> on; the numbers that
  the program prints are percentages, indices and request numbers.)
\<close>

definition digit :: "nat \<Rightarrow> char" where
  "digit d = ''0123456789'' ! d"

fun digits :: "nat \<Rightarrow> string \<Rightarrow> string" where
  "digits n acc =
     (if n < 10 then digit n # acc else digits (n div 10) (digit (n mod 10) # acc))"

declare digits.simps [simp del]

definition toString :: "int \<Rightarrow> string" where
  "toString i = (if 0 \<le> i then digits (nat i) [] else CHR ''-'' # digits (nat (- i)) [])"

text \<open>
  \<open>toLowerCase\<close>, \<open>toUpperCase\<close> and \<open>trim\<close> on code units below 256. \<open>toUpperCase\<close> is
  only applied to the four status literals, so its action on the letters a to z is all
  the program uses.
\<close>

definition toLowerCase_char :: "char \<Rightarrow> char" where
  "toLowerCase_char c =
     (let n = (of_char c :: nat)
      in if (65 \<le> n \<and> n \<le> 90) \<or> (192 \<le> n \<and> n \<le> 222 \<and> n \<noteq> 215)
         then char_of (n + 32) else c)"

definition toLowerCase :: "string \<Rightarrow> string" where
  "toLowerCase str = map toLowerCase_char str"

definition toUpperCase_char :: "char \<Rightarrow> char" where
  "toUpperCase_char c =
     (let n = (of_char c :: nat)
      in if 97 \<le> n \<and> n \<le> 122 then char_of (n - 32) else c)"

definition toUpperCase :: "string \<Rightarrow> string" where
  "toUpperCase str = map toUpperCase_char str"

definition isWhiteSpace :: "char \<Rightarrow> bool" where
  "isWhiteSpace c = ((of_char c :: nat) \<in> {9, 10, 11, 12, 13, 32, 160})"

definition trim :: "string \<Rightarrow> string" where
  "trim str = rev (dropWhile isWhiteSpace (rev (dropWhile isWhiteSpace str)))"

section \<open>The constant pools and \<open>generateAgent\<close>\<close>

definition AGENT_NAMES :: "string list" where
  "AGENT_NAMES = [''NEXUS-7'', ''PHANTOM-X'', ''CIPHER-9'', ''VORTEX-3'', ''ECHO-5'', ''PULSE-2'']"

definition TASKS :: "string list" where
  "TASKS =
    [''Analyzing data streams...'',
     ''Executing build pipeline...'',
     ''Scanning network nodes...'',
     ''Processing neural weights...'',
     ''Compiling source modules...'',
     ''Indexing knowledge base...'',
     ''Running diagnostics...'',
     ''Optimizing parameters...'']"

definition statuses :: "status list" where
  "statuses = [Active, Active, Active, Idle, Error, Offline]"

definition status_string :: "status \<Rightarrow> string" where
  "status_string st =
     (case st of Active \<Rightarrow> ''active'' | Idle \<Rightarrow> ''idle'' | Error \<Rightarrow> ''error''
      | Offline \<Rightarrow> ''offline'')"

text \<open>
  \<open>generateAgent(index)\<close>: the six calls of \<open>Math.random()\<close> happen in the order of the
  fields of the object literal.
\<close>

definition generateAgent :: "nat \<Rightarrow> state \<Rightarrow> Agent \<times> state" where
  "generateAgent i s0 =
     (let (r1, s1) = Math_random s0;
          (r2, s2) = Math_random s1;
          (r3, s3) = Math_random s2;
          (r4, s4) = Math_random s3;
          (r5, s5) = Math_random s4;
          (r6, s6) = Math_random s5
      in (\<lparr>agent_id = ''agent-'' @ toString (int i),
           name = AGENT_NAMES ! (i mod length AGENT_NAMES),
           status = pick statuses r1,
           task = pick TASKS r2,
           cpu = of_int (Math_floor (r3 * 100)),
           memory = of_int (Math_floor (r4 * 100)),
           uptime = Math_floor (r5 * 86400),
           lastPing = int (clock s6) - Math_floor (r6 * 10000)\<rparr>, s6))"

text \<open>\<open>Array.from({ length: n }, (_, i) => generateAgent(i))\<close>, from index \<open>i\<close> on.\<close>

fun generateAgents :: "nat \<Rightarrow> nat \<Rightarrow> state \<Rightarrow> Agent list \<times> state" where
  "generateAgents i 0 s = ([], s)"
| "generateAgents i (Suc n) s =
     (let (a, s1) = generateAgent i s;
          (as, s2) = generateAgents (Suc i) n s1
      in (a # as, s2))"

section \<open>\<open>addLog\<close>\<close>

text \<open>
  \<open>setLogs(prev => [...prev.slice(-100), entry])\<close>: the last 100 entries of the previous
  log are kept and the new entry is put behind them.
\<close>

definition addLog :: "string \<Rightarrow> log_type \<Rightarrow> string \<Rightarrow> state \<Rightarrow> state" where
  "addLog a t m s0 =
     (let (r, s1) = Math_random s0
      in s1\<lparr>logs := slice_last 100 (logs s1) @
            [\<lparr>log_id = (clock s1, r), timestamp = clock s1, agent = a, type = t,
              message = m\<rparr>]\<rparr>)"

section \<open>The simulation tick\<close>

text \<open>
  The object that the updater of \<open>setAgents\<close> builds for one agent: \<open>r1\<close> and \<open>r2\<close> are
  the two draws, \<open>now\<close> is \<open>Date.now()\<close>.
\<close>

definition tickAgent :: "real \<Rightarrow> real \<Rightarrow> int \<Rightarrow> Agent \<Rightarrow> Agent" where
  "tickAgent r1 r2 now a =
     a\<lparr>cpu := max 0 (min 100 (cpu a + (r1 - 1 / 2) * 20)),
       memory := max 0 (min 100 (memory a + (r2 - 1 / 2) * 10)),
       uptime := uptime a + 1,
       lastPing := (if status a \<noteq> Offline then now else lastPing a)\<rparr>"

text \<open>\<open>prev.map(agent => ...)\<close>: the agents are visited in order, each one drawing twice.\<close>

fun updateMetrics :: "Agent list \<Rightarrow> state \<Rightarrow> Agent list \<times> state" where
  "updateMetrics [] s = ([], s)"
| "updateMetrics (a # as) s =
     (let (r1, s1) = Math_random s;
          (r2, s2) = Math_random s1;
          a' = tickAgent r1 r2 (int (clock s2)) a;
          (as', s3) = updateMetrics as s2
      in (a' # as', s3))"

definition setAgents_tick :: "state \<Rightarrow> state" where
  "setAgents_tick s = (let (as, s') = updateMetrics (agents s) s in s'\<lparr>agents := as\<rparr>)"

text \<open>The arrays \<open>logTypes\<close> and \<open>messages\<close>; the latter is built from four draws.\<close>

definition logTypes :: "log_type list" where
  "logTypes = [Info, Info, Info, Success, Warning]"

definition messages :: "real \<Rightarrow> real \<Rightarrow> real \<Rightarrow> real \<Rightarrow> string list" where
  "messages r2 r3 r4 r5 =
     [''Processing batch request #'' @ toString (Math_floor (r2 * 9999)),
      ''Memory allocation optimized'',
      ''Task completed successfully'',
      ''Network latency: '' @ toString (Math_floor (r3 * 50)) @ ''ms'',
      ''Cache hit ratio: '' @ toString (85 + Math_floor (r4 * 15)) @ ''%'',
      ''Checkpoint saved'',
      ''Model weights synchronized'',
      ''Request queue depth: '' @ toString (Math_floor (r5 * 100))]"

text \<open>
  The callback of the interval. \<open>agents[...]\<close> is \<open>undefined\<close> on an empty roster, and
  reading \<open>randomAgent.name\<close> then throws a \<open>TypeError\<close> before \<open>setAgents\<close> is reached;
  the first component of the result is the error thrown, if any.
\<close>

definition tick :: "state \<Rightarrow> js_error option \<times> state" where
  "tick s0 =
     (let (r1, s1) = Math_random s0;
          randomAgent = index (agents s1) (Math_floor (r1 * real (length (agents s1))));
          (r2, s2) = Math_random s1;
          (r3, s3) = Math_random s2;
          (r4, s4) = Math_random s3;
          (r5, s5) = Math_random s4;
          (r6, s6) = Math_random s5
      in if 3 / 10 < r6 then
           (case randomAgent of
              None \<Rightarrow> (Some TypeError, s6)
            | Some a \<Rightarrow>
                (let (r7, s7) = Math_random s6;
                     (r8, s8) = Math_random s7
                 in (None,
                     setAgents_tick
                       (addLog (name a) (pick logTypes r7) (pick (messages r2 r3 r4 r5) r8) s8))))
         else (None, setAgents_tick s6))"

section \<open>Timers and effects\<close>

text \<open>
  \<open>setTimeout(f, d)\<close> and \<open>setInterval(f, d)\<close> put a timer behind the pending ones; that
  an interval repeats is part of \<open>fire\<close>. The only interval of the program is the tick,
  and the only handle ever passed to \<open>clearInterval\<close> is the one of the interval that
  the effect created last: \<open>clearInterval\<close> removes the pending interval (lemma
  \<open>one_interval\<close>: a session holds at most one).
\<close>

definition setTimeout :: "callback \<Rightarrow> nat \<Rightarrow> state \<Rightarrow> state" where
  "setTimeout f d s = s\<lparr>timers := timers s @ [\<lparr>due = clock s + d, cb = f\<rparr>]\<rparr>"

definition setInterval :: "callback \<Rightarrow> nat \<Rightarrow> state \<Rightarrow> state" where
  "setInterval f d s = s\<lparr>timers := timers s @ [\<lparr>due = clock s + d, cb = f\<rparr>]\<rparr>"

definition clearInterval :: "state \<Rightarrow> state" where
  "clearInterval s = s\<lparr>timers := filter (\<lambda>t. cb t \<noteq> TickCb) (timers s)\<rparr>"

text \<open>\<open>xs.forEach((x, i) => f(x, i))\<close>, from index \<open>i\<close> on.\<close>

fun forEach :: "('a \<Rightarrow> nat \<Rightarrow> state \<Rightarrow> state) \<Rightarrow> nat \<Rightarrow> 'a list \<Rightarrow> state \<Rightarrow> state" where
  "forEach f i [] s = s"
| "forEach f i (x # xs) s = forEach f (Suc i) xs (f x i s)"

definition bootMessages :: "(nat \<times> string) list" where
  "bootMessages =
    [(300, ''Initializing CLAWBOT Terminal v2.0.7...''),
     (800, ''Loading neural interface drivers...''),
     (1200, ''Establishing quantum-encrypted connections...''),
     (1600, ''Synchronizing agent mesh network...''),
     (2000, ''Boot sequence complete. All systems nominal.'')]"

text \<open>The effect "Boot sequence", run once when the component is mounted.\<close>

definition bootEffect :: "state \<Rightarrow> state" where
  "bootEffect s =
     setTimeout BootCompleteCb 2500
       (forEach (\<lambda>(delay, msg) i. setTimeout (AddLogCb ''SYSTEM'' System msg) delay)
          0 bootMessages s)"

text \<open>
  The effect "Simulate agent activity" has the dependencies \<open>bootComplete\<close> and \<open>agents\<close>.
  Its body returns at once while \<open>bootComplete\<close> is false and creates the interval
  otherwise; its cleanup clears the interval. After a render in which a dependency has
  changed, the cleanup of the previous run and then the body run again: \<open>tickEffect\<close>.
  Every \<open>setAgents(prev => prev.map(...))\<close> produces a new array, so it is such a change.
\<close>

definition tickEffect_body :: "state \<Rightarrow> state" where
  "tickEffect_body s = (if \<not> bootComplete s then s else setInterval TickCb 1500 s)"

definition tickEffect :: "state \<Rightarrow> state" where
  "tickEffect s = tickEffect_body (clearInterval s)"

section \<open>The command interpreter\<close>

definition statusLine :: "Agent \<Rightarrow> callback" where
  "statusLine a =
     AddLogCb ''SYSTEM'' (if status a = Error then ErrorLog else Info)
       (name a @ '': '' @ toUpperCase (status_string (status a)) @ '' | CPU: '' @
        toString (Math_round (cpu a)) @ ''% | MEM: '' @
        toString (Math_round (memory a)) @ ''%'')"

definition helpLines :: "string list" where
  "helpLines =
    [''Available commands:'',
     ''  status  - Show all agent statuses'',
     ''  deploy  - Deploy updates to all agents'',
     ''  restart - Restart all agents'',
     ''  scan    - Scan network for anomalies'',
     ''  clear   - Clear terminal output'']"

definition unknownMessage :: "string \<Rightarrow> string" where
  "unknownMessage cmd =
     ''Unknown command: '' @ cmd @ ''. Type 'help' for available commands.''"

definition handleCommand :: "string \<Rightarrow> state \<Rightarrow> state" where
  "handleCommand cmd s0 =
     (let cmdLower = trim (toLowerCase cmd);
          s1 = addLog ''USER'' Info (''$ '' @ cmd) s0
      in if cmdLower = ''status'' \<or> cmdLower = ''ls'' then
           forEach (\<lambda>a i. setTimeout (statusLine a) (i * 100)) 0 (agents s1) s1
         else if cmdLower = ''deploy'' then
           setTimeout (AddLogCb ''SYSTEM'' Success ''Deployment successful. All agents updated.'') 2000
             (addLog ''SYSTEM'' System ''Initiating deployment sequence...'' s1)
         else if cmdLower = ''restart'' then
           (let s2 = addLog ''SYSTEM'' Warning ''Restarting all agents...'' s1;
                s3 = s2\<lparr>agents := map (\<lambda>a. a\<lparr>status := Idle\<rparr>) (agents s2)\<rparr>
            in tickEffect (setTimeout RestartDoneCb 3000 s3))
         else if cmdLower = ''scan'' then
           setTimeout (AddLogCb ''SYSTEM'' Success ''Scan complete. No threats detected.'') 2500
             (addLog ''SYSTEM'' System ''Scanning network for anomalies...'' s1)
         else if cmdLower = ''help'' then
           forEach (\<lambda>line i. setTimeout (AddLogCb ''SYSTEM'' Info line) (i * 50)) 0 helpLines s1
         else if cmdLower = ''clear'' then
           s1\<lparr>logs := []\<rparr>
         else
           addLog ''SYSTEM'' ErrorLog (unknownMessage cmd) s1)"

text \<open>
  \<open>handleSubmit\<close> of \<open>CommandInput\<close>: a line that is empty after \<open>trim\<close> is not passed on.
\<close>

definition handleSubmit :: "string \<Rightarrow> state \<Rightarrow> state" where
  "handleSubmit command s = (if trim command = [] then s else handleCommand command s)"

section \<open>The scheduler\<close>

text \<open>
  Mounting the component: the initialiser of \<open>useState\<close> builds the six agents, the log
  is empty, the boot flag is false, and both effects run once.
\<close>

definition mount :: "nat \<Rightarrow> (nat \<Rightarrow> draw) \<Rightarrow> state" where
  "mount now g =
     (let s0 = \<lparr>agents = [], logs = [], bootComplete = False, timers = [], clock = now,
                rng = g, drawn = 0\<rparr>;
          (as, s1) = generateAgents 0 6 s0
      in tickEffect_body (bootEffect (s1\<lparr>agents := as\<rparr>)))"

text \<open>
  The timer that fires next: the one with the least due time, the one scheduled first
  among equals.
\<close>

fun earliest :: "timer list \<Rightarrow> timer option" where
  "earliest [] = None"
| "earliest (x # xs) =
     (case earliest xs of
        None \<Rightarrow> Some x
      | Some y \<Rightarrow> if due x \<le> due y then Some x else Some y)"

text \<open>
  Firing a timer runs its callback at the due time (or at once when that is past) and
  then renders. The interval is armed again after its callback has run, also when the
  callback has thrown; when it has not thrown, \<open>setAgents\<close> was called and the render
  runs \<open>tickEffect\<close>.
\<close>

definition fire :: "timer \<Rightarrow> state \<Rightarrow> state" where
  "fire tm s0 =
     (let s1 = s0\<lparr>timers := remove1 tm (timers s0), clock := max (clock s0) (due tm)\<rparr>
      in case cb tm of
           AddLogCb a t m \<Rightarrow> addLog a t m s1
         | BootCompleteCb \<Rightarrow>
             if bootComplete s1 then s1 else tickEffect (s1\<lparr>bootComplete := True\<rparr>)
         | RestartDoneCb \<Rightarrow>
             (let s2 = s1\<lparr>agents := map (\<lambda>a. a\<lparr>status := Active\<rparr>) (agents s1)\<rparr>
              in tickEffect (addLog ''SYSTEM'' Success ''All agents restarted successfully.'' s2))
         | TickCb \<Rightarrow>
             (let (err, s2) = tick s1;
                  s3 = setInterval TickCb 1500 s2
              in if err = None then tickEffect s3 else s3))"

text \<open>
  \<open>advance t s\<close> lets the virtual time run to \<open>t\<close> with no input from the user: every
  timer that is due by then fires, in the order of \<open>earliest\<close>. It terminates because a
  timeout fires once and schedules nothing, and each firing of the interval moves its
  due time forward: \<open>pending\<close> counts the timeouts, \<open>slack t\<close> adds up how far the
  intervals are from being due after \<open>t\<close>, and the facts below show that every firing
  decreases the one or, leaving it as it is, the other.
\<close>

definition pending :: "state \<Rightarrow> nat" where
  "pending s = length (filter (\<lambda>x. cb x \<noteq> TickCb) (timers s))"

definition slack :: "nat \<Rightarrow> state \<Rightarrow> nat" where
  "slack t s = sum_list (map (\<lambda>x. Suc t - due x) (filter (\<lambda>x. cb x = TickCb) (timers s)))"

text \<open>Which fields the operations leave alone.\<close>

lemma Math_random_fields [simp]:
  "agents (snd (Math_random s)) = agents s"
  "logs (snd (Math_random s)) = logs s"
  "bootComplete (snd (Math_random s)) = bootComplete s"
  "timers (snd (Math_random s)) = timers s"
  "clock (snd (Math_random s)) = clock s"
  "rng (snd (Math_random s)) = rng s"
  "drawn (snd (Math_random s)) = Suc (drawn s)"
  by (simp_all add: Math_random_def)

lemma addLog_fields [simp]:
  "agents (addLog a t m s) = agents s"
  "bootComplete (addLog a t m s) = bootComplete s"
  "timers (addLog a t m s) = timers s"
  "clock (addLog a t m s) = clock s"
  "rng (addLog a t m s) = rng s"
  "drawn (addLog a t m s) = Suc (drawn s)"
  by (simp_all add: addLog_def Math_random_def)

lemma updateMetrics_fields:
  "logs (snd (updateMetrics as s)) = logs s \<and>
   bootComplete (snd (updateMetrics as s)) = bootComplete s \<and>
   timers (snd (updateMetrics as s)) = timers s \<and>
   clock (snd (updateMetrics as s)) = clock s \<and>
   rng (snd (updateMetrics as s)) = rng s \<and>
   agents (snd (updateMetrics as s)) = agents s \<and>
   drawn (snd (updateMetrics as s)) = drawn s + 2 * length as"
  by (induction as arbitrary: s) (simp_all add: split_def Let_def)

lemma setAgents_tick_fields [simp]:
  "logs (setAgents_tick s) = logs s"
  "bootComplete (setAgents_tick s) = bootComplete s"
  "timers (setAgents_tick s) = timers s"
  "clock (setAgents_tick s) = clock s"
  "rng (setAgents_tick s) = rng s"
  by (simp_all add: setAgents_tick_def split_def Let_def updateMetrics_fields)

lemma tick_fields [simp]:
  "bootComplete (snd (tick s)) = bootComplete s"
  "timers (snd (tick s)) = timers s"
  "clock (snd (tick s)) = clock s"
  "rng (snd (tick s)) = rng s"
  by (simp_all add: tick_def split_def Let_def split: option.splits)

lemma earliest_in_set: "earliest ts = Some tm \<Longrightarrow> tm \<in> set ts"
  by (induction ts arbitrary: tm) (auto split: option.splits if_splits)

lemma tickEffect_fields [simp]:
  "agents (tickEffect s) = agents s"
  "logs (tickEffect s) = logs s"
  "bootComplete (tickEffect s) = bootComplete s"
  "clock (tickEffect s) = clock s"
  "rng (tickEffect s) = rng s"
  "drawn (tickEffect s) = drawn s"
  by (simp_all add: tickEffect_def tickEffect_body_def clearInterval_def setInterval_def)

lemma timers_tickEffect:
  "timers (tickEffect s) =
     filter (\<lambda>t. cb t \<noteq> TickCb) (timers s) @
     (if bootComplete s then [\<lparr>due = clock s + 1500, cb = TickCb\<rparr>] else [])"
  by (simp add: tickEffect_def tickEffect_body_def clearInterval_def setInterval_def)

text \<open>What a firing does to the two measures.\<close>

lemma filter_remove1_length:
  "tm \<in> set ts \<Longrightarrow> P tm \<Longrightarrow> length (filter P (remove1 tm ts)) < length (filter P ts)"
  by (induction ts) auto

lemma filter_remove1_other:
  "\<not> P tm \<Longrightarrow> filter P (remove1 tm ts) = filter P ts"
  by (induction ts) auto

lemma pending_fire_timeout:
  assumes "tm \<in> set (timers s)" "cb tm \<noteq> TickCb"
  shows "pending (fire tm s) < pending s"
  using assms filter_remove1_length[of tm "timers s" "\<lambda>x. cb x \<noteq> TickCb"]
  by (cases "cb tm") (simp_all add: fire_def pending_def Let_def timers_tickEffect)

lemma pending_fire_tick:
  assumes "cb tm = TickCb"
  shows "pending (fire tm s) = pending s"
  using assms filter_remove1_other[of "\<lambda>x. cb x \<noteq> TickCb" tm "timers s"]
  by (simp add: fire_def pending_def Let_def timers_tickEffect split_def setInterval_def)

lemma sum_list_remove1_tick:
  "tm \<in> set ts \<Longrightarrow> cb tm = TickCb \<Longrightarrow>
   sum_list (map (\<lambda>x. Suc t - due x) (filter (\<lambda>x. cb x = TickCb) ts)) =
   (Suc t - due tm) + sum_list (map (\<lambda>x. Suc t - due x) (filter (\<lambda>x. cb x = TickCb) (remove1 tm ts)))"
  by (induction ts) auto

lemma slack_fire_tick:
  assumes "tm \<in> set (timers s)" "cb tm = TickCb" "due tm \<le> t"
  shows "slack t (fire tm s) < slack t s"
proof -
  let ?rest = "sum_list (map (\<lambda>x. Suc t - due x)
    (filter (\<lambda>x. cb x = TickCb) (remove1 tm (timers s))))"
  have old: "slack t s = (Suc t - due tm) + ?rest"
    unfolding slack_def using assms(1,2) by (rule sum_list_remove1_tick)
  have pos: "0 < Suc t - due tm" using assms(3) by simp
  have new: "slack t (fire tm s) \<le> ?rest + (Suc t - (max (clock s) (due tm) + 1500))"
    using assms(2)
    by (simp add: fire_def slack_def Let_def timers_tickEffect split_def setInterval_def)
  have "Suc t - (max (clock s) (due tm) + 1500) < Suc t - due tm"
    using assms(3) by simp
  with old new show ?thesis by simp
qed

function advance :: "nat \<Rightarrow> state \<Rightarrow> state" where
  "advance t s =
     (case earliest (timers s) of
        None \<Rightarrow> s\<lparr>clock := max (clock s) t\<rparr>
      | Some tm \<Rightarrow>
          if due tm \<le> t then advance t (fire tm s) else s\<lparr>clock := max (clock s) t\<rparr>)"
  by pat_completeness auto
termination
proof (relation "measures [\<lambda>(t, s). pending s, \<lambda>(t, s). slack t s]")
  show "wf (measures [\<lambda>(t, s). pending s, \<lambda>(t, s). slack t s])" by simp
next
  fix t :: nat and s :: state and tm :: timer
  assume e: "earliest (timers s) = Some tm" and d: "due tm \<le> t"
  from e have m: "tm \<in> set (timers s)" by (rule earliest_in_set)
  show "((t, fire tm s), (t, s)) \<in> measures [\<lambda>(t, s). pending s, \<lambda>(t, s). slack t s]"
  proof (cases "cb tm = TickCb")
    case True
    with m d show ?thesis by (simp add: pending_fire_tick slack_fire_tick)
  next
    case False
    with m show ?thesis by (simp add: pending_fire_timeout)
  qed
qed

declare advance.simps [simp del]

text \<open>
  A session after mounting is a sequence of events: the user submits a line, or time
  passes until \<open>t\<close> with no input.
\<close>

datatype event = Submit string | Elapse nat

fun step :: "event \<Rightarrow> state \<Rightarrow> state" where
  "step (Submit command) s = handleSubmit command s"
| "step (Elapse t) s = advance t s"

fun run :: "event list \<Rightarrow> state \<Rightarrow> state" where
  "run [] s = s"
| "run (e # es) s = run es (step e s)"

text \<open>
  What the terminal shows of a log entry: everything but the \<open>id\<close>, which is only the
  key of the list item.
\<close>

definition view :: "LogEntry \<Rightarrow> nat \<times> string \<times> log_type \<times> string" where
  "view e = (timestamp e, agent e, type e, message e)"


section \<open>Notions used in the statements and proofs\<close>

text \<open>
  \<open>ticked now a b\<close>: \<open>b\<close> is the object that the updater of the tick builds from \<open>a\<close>,
  for some pair of draws.
\<close>

definition ticked :: "int \<Rightarrow> Agent \<Rightarrow> Agent \<Rightarrow> bool" where
  "ticked now a b = (\<exists>d1 d2. b = tickAgent (val d1) (val d2) now a)"

text \<open>
  The state before the boot flag is set, as an invariant: the flag is false, no interval
  is pending, the callback that sets the flag is not due before \<open>D\<close>, every pending log
  callback is from "SYSTEM", the uptimes are \<open>U\<close>, and every log entry is from "SYSTEM" or
  "USER".
\<close>

definition pre_boot :: "nat \<Rightarrow> int list \<Rightarrow> state \<Rightarrow> bool" where
  "pre_boot D U u =
     (\<not> bootComplete u \<and>
      (\<forall>tm\<in>set (timers u). cb tm \<noteq> TickCb \<and> (cb tm = BootCompleteCb \<longrightarrow> D \<le> due tm) \<and>
         (\<forall>a t m. cb tm = AddLogCb a t m \<longrightarrow> a = ''SYSTEM'')) \<and>
      map uptime (agents u) = U \<and>
      (\<forall>e\<in>set (logs u). agent e = ''SYSTEM'' \<or> agent e = ''USER''))"

text \<open>\<open>clamped a\<close>: the cpu and the memory of \<open>a\<close> lie between 0 and 100.\<close>

definition clamped :: "Agent \<Rightarrow> bool" where
  "clamped a = (0 \<le> cpu a \<and> cpu a \<le> 100 \<and> 0 \<le> memory a \<and> memory a \<le> 100)"

text \<open>
  \<open>intervals s\<close> counts the pending intervals. A session never holds more than one,
  which is why \<open>clearInterval\<close> can clear by callback instead of by handle.
\<close>

definition intervals :: "state \<Rightarrow> nat" where
  "intervals s = length (filter (\<lambda>t. cb t = TickCb) (timers s))"

subsection \<open>A concrete state\<close>

text \<open>
  A booted state with two agents, the first one in error and near the upper bound of
  cpu, the second one offline; the next tick is pending, and every draw of its stream
  is 0.9.
\<close>

definition example_agents :: "Agent list" where
  "example_agents =
    [\<lparr>agent_id = ''agent-0'', name = ''NEXUS-7'', status = Error,
      task = ''Running diagnostics...'', cpu = 97, memory = 2, uptime = 41, lastPing = 9000\<rparr>,
     \<lparr>agent_id = ''agent-1'', name = ''PHANTOM-X'', status = Offline,
      task = ''Optimizing parameters...'', cpu = 81 / 2, memory = 60, uptime = 7,
      lastPing = 8000\<rparr>]"

definition example :: state where
  "example =
    \<lparr>agents = example_agents, logs = [], bootComplete = True,
     timers = [\<lparr>due = 11500, cb = TickCb\<rparr>], clock = 10000,
     rng = (\<lambda>n. Draw (9 / 10)), drawn = 0\<rparr>"

section \<open>Facts about the tick\<close>

lemma val_range: "0 \<le> val d \<and> val d < 1"
  using val [of d] by simp

lemma val_Draw: "0 \<le> r \<Longrightarrow> r < 1 \<Longrightarrow> val (Draw r) = r"
  by (simp add: Draw_inverse)

lemma updateMetrics_ticked:
  "list_all2 (ticked (int (clock s))) as (fst (updateMetrics as s))"
proof (induction as arbitrary: s)
  case Nil
  show ?case by simp
next
  case (Cons a as)
  have "ticked (int (clock s)) a
          (tickAgent (val (rng s (drawn s))) (val (rng s (Suc (drawn s)))) (int (clock s)) a)"
    unfolding ticked_def by blast
  moreover have "list_all2 (ticked (int (clock s))) as
          (fst (updateMetrics as (snd (Math_random (snd (Math_random s))))))"
    using Cons.IH [of "snd (Math_random (snd (Math_random s)))"] by simp
  ultimately show ?case
    by (simp add: split_def Let_def Math_random_def)
qed

lemma agents_setAgents_tick:
  "agents (setAgents_tick s) = fst (updateMetrics (agents s) s)"
  by (simp add: setAgents_tick_def split_def Let_def)

lemma setAgents_tick_ticked:
  "list_all2 (ticked (int (clock s))) (agents s) (agents (setAgents_tick s))"
  by (simp add: agents_setAgents_tick updateMetrics_ticked)

lemma random_index_less:
  assumes "0 \<le> r" "r < 1" "0 < n"
  shows "random_index n r < n"
proof -
  have "r * real n < real n" using assms by simp
  then have "\<lfloor>r * real n\<rfloor> < int n" by (simp add: floor_less_iff)
  moreover have "0 \<le> \<lfloor>r * real n\<rfloor>" using assms by simp
  ultimately show ?thesis unfolding random_index_def Math_floor_def by linarith
qed

lemma index_random_None:
  assumes "index xs (Math_floor (val d * real (length xs))) = None"
  shows "xs = []"
proof (rule ccontr)
  assume "xs \<noteq> []"
  then have "random_index (length xs) (val d) < length xs"
    using val_range [of d] by (simp add: random_index_less)
  moreover have "0 \<le> Math_floor (val d * real (length xs))"
    using val_range [of d] by (simp add: Math_floor_def)
  ultimately show False
    using assms by (simp add: index_def random_index_def)
qed

lemma tick_cases:
  "(fst (tick s) = Some TypeError \<and> agents s = [] \<and> agents (snd (tick s)) = [] \<and>
      logs (snd (tick s)) = logs s) \<or>
   (\<exists>u. fst (tick s) = None \<and> snd (tick s) = setAgents_tick u \<and> agents u = agents s \<and>
      clock u = clock s \<and>
      (logs u = logs s \<or> (\<exists>a t m v. u = addLog a t m v \<and> logs v = logs s)))"
proof -
  define s1 where "s1 = snd (Math_random s)"
  define s6 where "s6 = snd (Math_random (snd (Math_random (snd (Math_random (snd (Math_random (snd (Math_random s1)))))))))"
  define r1 where "r1 = fst (Math_random s)"
  define ra where "ra = index (agents s) (Math_floor (r1 * real (length (agents s))))"
  have f6: "agents s6 = agents s" "clock s6 = clock s" "logs s6 = logs s"
    by (simp_all add: s6_def s1_def)
  show ?thesis
  proof (cases "3 / 10 < fst (Math_random (snd (Math_random (snd (Math_random (snd (Math_random (snd (Math_random s1)))))))))")
    case False
    then have "tick s = (None, setAgents_tick s6)"
      by (simp add: tick_def split_def Let_def s6_def s1_def)
    with f6 show ?thesis by auto
  next
    case gt: True
    show ?thesis
    proof (cases ra)
      case None
      then have "agents s = []"
        using index_random_None [of "agents s" "rng s (drawn s)"]
        by (simp add: ra_def r1_def Math_random_def)
      moreover have "tick s = (Some TypeError, s6)"
        using gt None by (simp add: tick_def split_def Let_def s6_def s1_def ra_def r1_def)
      ultimately show ?thesis using f6 by simp
    next
      case (Some a)
      then obtain t m v where "tick s = (None, setAgents_tick (addLog (name a) t m v))"
        and "agents v = agents s" "clock v = clock s" "logs v = logs s"
        using gt by (simp add: tick_def split_def Let_def s6_def s1_def ra_def r1_def)
      then show ?thesis by auto
    qed
  qed
qed

lemma tick_ticked:
  "list_all2 (ticked (int (clock s))) (agents s) (agents (snd (tick s)))"
proof -
  consider "agents s = []" "agents (snd (tick s)) = []"
    | u where "snd (tick s) = setAgents_tick u" "agents u = agents s" "clock u = clock s"
    using tick_cases [of s] by blast
  then show ?thesis
  proof cases
    case 1
    then show ?thesis by simp
  next
    case 2
    then show ?thesis using setAgents_tick_ticked [of u] by simp
  qed
qed

lemma length_agents_tick: "length (agents (snd (tick s))) = length (agents s)"
  using tick_ticked [of s] by (simp add: list_all2_lengthD)

lemma length_agents_ticks: "length (agents (((\<lambda>u. snd (tick u)) ^^ n) s)) = length (agents s)"
  by (induction n) (simp_all add: length_agents_tick)

lemma uptime_tick:
  "i < length (agents s) \<Longrightarrow> uptime (agents (snd (tick s)) ! i) = uptime (agents s ! i) + 1"
  using tick_ticked [of s] by (auto simp: list_all2_conv_all_nth ticked_def tickAgent_def)

section \<open>Facts about the log, the timers and mounting\<close>

lemma logs_addLog:
  "logs (addLog a t m s) =
     slice_last 100 (logs s) @
     [\<lparr>log_id = (clock s, val (rng s (drawn s))), timestamp = clock s, agent = a, type = t,
       message = m\<rparr>]"
  by (simp add: addLog_def Math_random_def)

lemma length_slice_last: "length (slice_last n xs) = min (length xs) n"
  by (simp add: slice_last_def)

lemma setTimeout_fields [simp]:
  "agents (setTimeout f d s) = agents s"
  "logs (setTimeout f d s) = logs s"
  "bootComplete (setTimeout f d s) = bootComplete s"
  "clock (setTimeout f d s) = clock s"
  "rng (setTimeout f d s) = rng s"
  "drawn (setTimeout f d s) = drawn s"
  "timers (setTimeout f d s) = timers s @ [\<lparr>due = clock s + d, cb = f\<rparr>]"
  by (simp_all add: setTimeout_def)

lemma generateAgent_fields [simp]:
  "agents (snd (generateAgent i s)) = agents s"
  "logs (snd (generateAgent i s)) = logs s"
  "bootComplete (snd (generateAgent i s)) = bootComplete s"
  "timers (snd (generateAgent i s)) = timers s"
  "clock (snd (generateAgent i s)) = clock s"
  "rng (snd (generateAgent i s)) = rng s"
  "drawn (snd (generateAgent i s)) = drawn s + 6"
  by (simp_all add: generateAgent_def split_def Let_def)

lemma generateAgents_fields:
  "agents (snd (generateAgents i n s)) = agents s \<and>
   logs (snd (generateAgents i n s)) = logs s \<and>
   bootComplete (snd (generateAgents i n s)) = bootComplete s \<and>
   timers (snd (generateAgents i n s)) = timers s \<and>
   clock (snd (generateAgents i n s)) = clock s \<and>
   rng (snd (generateAgents i n s)) = rng s \<and>
   drawn (snd (generateAgents i n s)) = drawn s + 6 * n \<and>
   length (fst (generateAgents i n s)) = n"
  by (induction n arbitrary: i s) (simp_all add: split_def Let_def)

lemma bootEffect_fields [simp]:
  "agents (bootEffect s) = agents s"
  "logs (bootEffect s) = logs s"
  "bootComplete (bootEffect s) = bootComplete s"
  "clock (bootEffect s) = clock s"
  "rng (bootEffect s) = rng s"
  "drawn (bootEffect s) = drawn s"
  by (simp_all add: bootEffect_def bootMessages_def)

lemma timers_bootEffect:
  "timers (bootEffect s) = timers s @
     [\<lparr>due = clock s + 300, cb = AddLogCb ''SYSTEM'' System ''Initializing CLAWBOT Terminal v2.0.7...''\<rparr>,
      \<lparr>due = clock s + 800, cb = AddLogCb ''SYSTEM'' System ''Loading neural interface drivers...''\<rparr>,
      \<lparr>due = clock s + 1200, cb = AddLogCb ''SYSTEM'' System ''Establishing quantum-encrypted connections...''\<rparr>,
      \<lparr>due = clock s + 1600, cb = AddLogCb ''SYSTEM'' System ''Synchronizing agent mesh network...''\<rparr>,
      \<lparr>due = clock s + 2000, cb = AddLogCb ''SYSTEM'' System ''Boot sequence complete. All systems nominal.''\<rparr>,
      \<lparr>due = clock s + 2500, cb = BootCompleteCb\<rparr>]"
  by (simp add: bootEffect_def bootMessages_def)

lemma mount_fields [simp]:
  "logs (mount now g) = []"
  "bootComplete (mount now g) = False"
  "clock (mount now g) = now"
  "rng (mount now g) = g"
  "drawn (mount now g) = 36"
  "length (agents (mount now g)) = 6"
  by (simp_all add: mount_def split_def Let_def tickEffect_body_def generateAgents_fields)

lemma length_logs_addLog: "length (logs (addLog a t m s)) = min (length (logs s)) 100 + 1"
  by (simp add: logs_addLog length_slice_last)

section \<open>Facts about the commands\<close>

lemma slice_last_append1:
  "slice_last 100 (slice_last 100 xs @ [x]) = slice_last 99 xs @ [x]"
proof -
  have "length xs - (length xs - 100 + 99) + (length xs - 100) = length xs - 99"
    by arith
  then show ?thesis by (simp add: slice_last_def)
qed

lemma forEach_setTimeout:
  "forEach (\<lambda>x i. setTimeout (f x) (g i)) k xs s =
     s\<lparr>timers := timers s @ map (\<lambda>(i, x). \<lparr>due = clock s + g i, cb = f x\<rparr>) (enumerate k xs)\<rparr>"
  by (induction xs arbitrary: k s) (simp_all add: setTimeout_def)

lemma handleCommand_unknown:
  assumes "trim (toLowerCase cmd) \<notin> {''status'', ''ls'', ''deploy'', ''restart'', ''scan'', ''help'', ''clear''}"
  shows "handleCommand cmd s =
     addLog ''SYSTEM'' ErrorLog (unknownMessage cmd) (addLog ''USER'' Info (''$ '' @ cmd) s)"
  using assms by (simp add: handleCommand_def Let_def)

lemma handleCommand_clear:
  assumes "trim (toLowerCase cmd) = ''clear''"
  shows "handleCommand cmd s = (addLog ''USER'' Info (''$ '' @ cmd) s)\<lparr>logs := []\<rparr>"
  using assms by (simp add: handleCommand_def Let_def)

lemma handleCommand_deploy:
  assumes "trim (toLowerCase cmd) = ''deploy''"
  shows "handleCommand cmd s =
     setTimeout (AddLogCb ''SYSTEM'' Success ''Deployment successful. All agents updated.'') 2000
       (addLog ''SYSTEM'' System ''Initiating deployment sequence...''
         (addLog ''USER'' Info (''$ '' @ cmd) s))"
  using assms by (simp add: handleCommand_def Let_def)

lemma handleCommand_scan:
  assumes "trim (toLowerCase cmd) = ''scan''"
  shows "handleCommand cmd s =
     setTimeout (AddLogCb ''SYSTEM'' Success ''Scan complete. No threats detected.'') 2500
       (addLog ''SYSTEM'' System ''Scanning network for anomalies...''
         (addLog ''USER'' Info (''$ '' @ cmd) s))"
  using assms by (simp add: handleCommand_def Let_def)

lemma handleCommand_restart:
  assumes "trim (toLowerCase cmd) = ''restart''"
  shows "handleCommand cmd s =
     tickEffect (setTimeout RestartDoneCb 3000
       ((addLog ''SYSTEM'' Warning ''Restarting all agents...'' (addLog ''USER'' Info (''$ '' @ cmd) s))
          \<lparr>agents := map (\<lambda>a. a\<lparr>status := Idle\<rparr>) (agents s)\<rparr>))"
  using assms by (simp add: handleCommand_def Let_def)

lemma handleCommand_status:
  assumes "trim (toLowerCase cmd) = ''status'' \<or> trim (toLowerCase cmd) = ''ls''"
  shows "handleCommand cmd s =
     forEach (\<lambda>a i. setTimeout (statusLine a) (i * 100)) 0 (agents s)
       (addLog ''USER'' Info (''$ '' @ cmd) s)"
  using assms by (auto simp add: handleCommand_def Let_def)

lemma handleCommand_help:
  assumes "trim (toLowerCase cmd) = ''help''"
  shows "handleCommand cmd s =
     forEach (\<lambda>line i. setTimeout (AddLogCb ''SYSTEM'' Info line) (i * 50)) 0 helpLines
       (addLog ''USER'' Info (''$ '' @ cmd) s)"
  using assms by (simp add: handleCommand_def Let_def)

lemma status_string_upper:
  "toUpperCase (status_string st) =
     (case st of Active \<Rightarrow> ''ACTIVE'' | Idle \<Rightarrow> ''IDLE'' | Error \<Rightarrow> ''ERROR'' | Offline \<Rightarrow> ''OFFLINE'')"
proof -
  have "toUpperCase (status_string Active) = ''ACTIVE''" by code_simp
  moreover have "toUpperCase (status_string Idle) = ''IDLE''" by code_simp
  moreover have "toUpperCase (status_string Error) = ''ERROR''" by code_simp
  moreover have "toUpperCase (status_string Offline) = ''OFFLINE''" by code_simp
  ultimately show ?thesis by (cases st) simp_all
qed

lemma timers_handleCommand_restart:
  assumes "trim (toLowerCase cmd) = ''restart''"
  shows "timers (handleCommand cmd s) =
     filter (\<lambda>t. cb t \<noteq> TickCb) (timers s) @ [\<lparr>due = clock s + 3000, cb = RestartDoneCb\<rparr>] @
     (if bootComplete s then [\<lparr>due = clock s + 1500, cb = TickCb\<rparr>] else [])"
  by (simp add: handleCommand_restart [OF assms] timers_tickEffect)

section \<open>Facts about the scheduler\<close>

lemma fire_AddLogCb:
  "cb tm = AddLogCb a t m \<Longrightarrow>
   fire tm u = addLog a t m (u\<lparr>timers := remove1 tm (timers u), clock := max (clock u) (due tm)\<rparr>)"
  by (simp add: fire_def)

lemma fire_RestartDoneCb:
  "cb tm = RestartDoneCb \<Longrightarrow>
   fire tm u =
     tickEffect (addLog ''SYSTEM'' Success ''All agents restarted successfully.''
       (u\<lparr>timers := remove1 tm (timers u), clock := max (clock u) (due tm),
          agents := map (\<lambda>a. a\<lparr>status := Active\<rparr>) (agents u)\<rparr>))"
  by (simp add: fire_def Let_def)

lemma earliest_None_iff: "earliest ts = None \<longleftrightarrow> ts = []"
  by (cases ts) (auto split: option.splits)

lemma earliest_le: "earliest ts = Some x \<Longrightarrow> y \<in> set ts \<Longrightarrow> due x \<le> due y"
  by (induction ts arbitrary: x) (auto simp: earliest_None_iff split: option.splits if_splits)

lemma earliest_first:
  assumes "\<forall>y\<in>set ys. due x < due y" "\<forall>z\<in>set zs. due x \<le> due z"
  shows "earliest (ys @ x # zs) = Some x"
  using assms
proof (induction ys)
  case Nil
  then show ?case
    by (auto split: option.splits dest: earliest_in_set)
next
  case (Cons y ys)
  then show ?case by (auto split: option.splits)
qed

lemma advance_fire:
  "earliest (timers s) = Some tm \<Longrightarrow> due tm \<le> t \<Longrightarrow> advance t s = advance t (fire tm s)"
  by (subst advance.simps) simp

lemma advance_idle:
  assumes "\<forall>tm\<in>set (timers s). t < due tm"
  shows "advance t s = s\<lparr>clock := max (clock s) t\<rparr>"
proof (cases "earliest (timers s)")
  case None
  then show ?thesis by (subst advance.simps) simp
next
  case (Some tm)
  then have "t < due tm" using assms earliest_in_set by blast
  with Some show ?thesis by (subst advance.simps) simp
qed

lemma advance_invariant:
  assumes "P s"
    and "\<And>u tm. P u \<Longrightarrow> earliest (timers u) = Some tm \<Longrightarrow> due tm \<le> t \<Longrightarrow> P (fire tm u)"
    and "\<And>u. P u \<Longrightarrow> (\<forall>tm\<in>set (timers u). t < due tm) \<Longrightarrow> Q (u\<lparr>clock := max (clock u) t\<rparr>)"
  shows "Q (advance t s)"
  using assms
proof (induction t s rule: advance.induct)
  case (1 t s)
  note init = "1.prems"(1) and step = "1.prems"(2) and final = "1.prems"(3)
  have stop: "Q (advance t s)" if idle: "\<forall>tm\<in>set (timers s). t < due tm"
  proof -
    have "Q (s\<lparr>clock := max (clock s) t\<rparr>)"
      using init idle by (rule final)
    then show ?thesis by (simp add: advance_idle [OF idle])
  qed
  show ?case
  proof (cases "earliest (timers s)")
    case None
    then show ?thesis by (simp add: stop earliest_None_iff)
  next
    case (Some tm)
    show ?thesis
    proof (cases "due tm \<le> t")
      case True
      have "P (fire tm s)" using init Some True by (rule step)
      then have "Q (advance t (fire tm s))"
        using "1.IH" [OF Some True] step final by blast
      then show ?thesis by (simp add: advance_fire [OF Some True])
    next
      case False
      then have "\<forall>x\<in>set (timers s). t < due x"
        using Some earliest_le by fastforce
      then show ?thesis by (rule stop)
    qed
  qed
qed

lemma clock_fire: "clock (fire tm u) = max (clock u) (due tm)"
  by (cases "cb tm") (simp_all add: fire_def Let_def split_def setInterval_def)

lemma clock_advance: "clock (advance t s) = max (clock s) t"
  by (rule advance_invariant [where P = "\<lambda>u. max (clock u) t = max (clock s) t"])
    (simp_all add: clock_fire max.assoc max_absorb2)

lemma timers_advance_later: "\<forall>tm\<in>set (timers (advance t s)). t < due tm"
  by (rule advance_invariant [where P = "\<lambda>u. True"]) simp_all

lemma in_set_remove1D: "x \<in> set (remove1 y xs) \<Longrightarrow> x \<in> set xs"
  by (metis notin_set_remove1)

lemma ticked_fields:
  "ticked now a b \<Longrightarrow> status b = status a \<and> uptime b = uptime a + 1"
  by (auto simp: ticked_def tickAgent_def)

lemma map_status_tick: "map status (agents (snd (tick s))) = map status (agents s)"
  using tick_ticked [of s]
  by (auto simp: list_all2_conv_all_nth ticked_fields intro!: nth_equalityI)

lemma agents_fire_AddLogCb: "cb tm = AddLogCb a t m \<Longrightarrow> agents (fire tm u) = agents u"
  by (simp add: fire_AddLogCb)

lemma agents_fire_BootCompleteCb: "cb tm = BootCompleteCb \<Longrightarrow> agents (fire tm u) = agents u"
  by (simp add: fire_def Let_def)

lemma agents_fire_RestartDoneCb:
  "cb tm = RestartDoneCb \<Longrightarrow> agents (fire tm u) = map (\<lambda>a. a\<lparr>status := Active\<rparr>) (agents u)"
  by (simp add: fire_RestartDoneCb)

lemma agents_fire_TickCb:
  "cb tm = TickCb \<Longrightarrow>
   agents (fire tm u) =
     agents (snd (tick (u\<lparr>timers := remove1 tm (timers u), clock := max (clock u) (due tm)\<rparr>)))"
  by (simp add: fire_def Let_def split_def setInterval_def)

lemma map_status_fire:
  "cb tm \<noteq> RestartDoneCb \<Longrightarrow> map status (agents (fire tm u)) = map status (agents u)"
  by (cases "cb tm")
    (simp_all add: agents_fire_AddLogCb agents_fire_BootCompleteCb agents_fire_TickCb map_status_tick)

lemma bootComplete_fire: "bootComplete (fire tm u) = (bootComplete u \<or> cb tm = BootCompleteCb)"
  by (cases "cb tm") (auto simp add: fire_def Let_def split_def setInterval_def)

lemma timers_fire_old:
  "x \<in> set (timers (fire tm u)) \<Longrightarrow> cb x \<noteq> TickCb \<Longrightarrow> x \<in> set (timers u)"
  by (cases "cb tm")
    (auto simp add: fire_def Let_def split_def setInterval_def timers_tickEffect
      dest: in_set_remove1D split: if_splits)

lemma timers_fire_kept:
  "x \<in> set (timers u) \<Longrightarrow> x \<noteq> tm \<Longrightarrow> cb x \<noteq> TickCb \<Longrightarrow> x \<in> set (timers (fire tm u))"
  by (cases "cb tm")
    (auto simp add: fire_def Let_def split_def setInterval_def timers_tickEffect)

lemma logs_fire_AddLogCb:
  "cb tm = AddLogCb a t m \<Longrightarrow>
   logs (fire tm u) =
     slice_last 100 (logs u) @
     [\<lparr>log_id = (max (clock u) (due tm), val (rng u (drawn u))),
       timestamp = max (clock u) (due tm), agent = a, type = t, message = m\<rparr>]"
  by (simp add: fire_AddLogCb logs_addLog)

lemma logs_fire_BootCompleteCb: "cb tm = BootCompleteCb \<Longrightarrow> logs (fire tm u) = logs u"
  by (simp add: fire_def Let_def)

lemma logs_fire_RestartDoneCb:
  "cb tm = RestartDoneCb \<Longrightarrow>
   logs (fire tm u) =
     slice_last 100 (logs u) @
     [\<lparr>log_id = (max (clock u) (due tm), val (rng u (drawn u))),
       timestamp = max (clock u) (due tm), agent = ''SYSTEM'', type = Success,
       message = ''All agents restarted successfully.''\<rparr>]"
  by (simp add: fire_RestartDoneCb logs_addLog)

lemma length_agents_fire: "length (agents (fire tm u)) = length (agents u)"
  by (cases "cb tm")
    (simp_all add: agents_fire_AddLogCb agents_fire_BootCompleteCb agents_fire_RestartDoneCb
      agents_fire_TickCb length_agents_tick)

lemma length_agents_advance: "length (agents (advance t s)) = length (agents s)"
  by (rule advance_invariant [where P = "\<lambda>u. length (agents u) = length (agents s)"])
    (simp_all add: length_agents_fire)

lemma map_status_advance:
  assumes "\<forall>tm\<in>set (timers s). cb tm = RestartDoneCb \<longrightarrow> t < due tm"
  shows "map status (agents (advance t s)) = map status (agents s)"
proof (rule advance_invariant [where P = "\<lambda>u. map status (agents u) = map status (agents s) \<and>
    (\<forall>tm\<in>set (timers u). cb tm = RestartDoneCb \<longrightarrow> t < due tm)"])
  show "map status (agents s) = map status (agents s) \<and>
    (\<forall>tm\<in>set (timers s). cb tm = RestartDoneCb \<longrightarrow> t < due tm)"
    using assms by simp
next
  fix u :: state and tm :: timer
  assume p: "map status (agents u) = map status (agents s) \<and>
    (\<forall>tm\<in>set (timers u). cb tm = RestartDoneCb \<longrightarrow> t < due tm)"
    and e: "earliest (timers u) = Some tm" and d: "due tm \<le> t"
  from e have "tm \<in> set (timers u)" by (rule earliest_in_set)
  with p d have n: "cb tm \<noteq> RestartDoneCb" by auto
  have "\<forall>x\<in>set (timers (fire tm u)). cb x = RestartDoneCb \<longrightarrow> t < due x"
    using p timers_fire_old [of _ tm u] by auto
  with p n show "map status (agents (fire tm u)) = map status (agents s) \<and>
    (\<forall>x\<in>set (timers (fire tm u)). cb x = RestartDoneCb \<longrightarrow> t < due x)"
    by (simp add: map_status_fire)
next
  fix u :: state
  assume "map status (agents u) = map status (agents s) \<and>
    (\<forall>tm\<in>set (timers u). cb tm = RestartDoneCb \<longrightarrow> t < due tm)"
  then show "map status (agents (u\<lparr>clock := max (clock u) t\<rparr>)) = map status (agents s)"
    by simp
qed

lemma all_status_map: "(\<forall>a\<in>set as. status a = st) \<longleftrightarrow> map status as = replicate (length as) st"
  by (induction as) auto

lemma active_after_restart:
  assumes "tm \<in> set (timers s)" "cb tm = RestartDoneCb" "due tm \<le> t"
  shows "\<forall>a\<in>set (agents (advance t s)). status a = Active"
proof (rule advance_invariant [where P = "\<lambda>u.
    (\<exists>x\<in>set (timers u). cb x = RestartDoneCb \<and> due x \<le> t) \<or>
    (\<forall>a\<in>set (agents u). status a = Active)"])
  show "(\<exists>x\<in>set (timers s). cb x = RestartDoneCb \<and> due x \<le> t) \<or>
    (\<forall>a\<in>set (agents s). status a = Active)"
    using assms by blast
next
  fix u :: state and y :: timer
  assume p: "(\<exists>x\<in>set (timers u). cb x = RestartDoneCb \<and> due x \<le> t) \<or>
    (\<forall>a\<in>set (agents u). status a = Active)"
    and e: "earliest (timers u) = Some y" and d: "due y \<le> t"
  show "(\<exists>x\<in>set (timers (fire y u)). cb x = RestartDoneCb \<and> due x \<le> t) \<or>
    (\<forall>a\<in>set (agents (fire y u)). status a = Active)"
  proof (cases "cb y = RestartDoneCb")
    case True
    then show ?thesis by (simp add: agents_fire_RestartDoneCb)
  next
    case False
    from p show ?thesis
    proof
      assume "\<exists>x\<in>set (timers u). cb x = RestartDoneCb \<and> due x \<le> t"
      then obtain x where x: "x \<in> set (timers u)" "cb x = RestartDoneCb" "due x \<le> t" by blast
      with False have "x \<noteq> y" by auto
      with x have "x \<in> set (timers (fire y u))" by (simp add: timers_fire_kept)
      with x show ?thesis by blast
    next
      assume "\<forall>a\<in>set (agents u). status a = Active"
      then have "\<forall>a\<in>set (agents (fire y u)). status a = Active"
        using map_status_fire [OF False, of u] length_agents_fire [of y u]
        by (simp add: all_status_map)
      then show ?thesis ..
    qed
  qed
next
  fix u :: state
  assume "(\<exists>x\<in>set (timers u). cb x = RestartDoneCb \<and> due x \<le> t) \<or>
    (\<forall>a\<in>set (agents u). status a = Active)"
    and "\<forall>tm\<in>set (timers u). t < due tm"
  then show "\<forall>a\<in>set (agents (u\<lparr>clock := max (clock u) t\<rparr>)). status a = Active"
    by fastforce
qed

section \<open>Facts about runs of the scheduler\<close>

lemma timers_fire_AddLogCb:
  "cb tm = AddLogCb a t m \<Longrightarrow> timers (fire tm u) = remove1 tm (timers u)"
  by (simp add: fire_AddLogCb)

lemma advance_addlogs:
  assumes "filter (\<lambda>x. due x \<le> t) (timers u) = F"
    and "sorted_wrt (\<lambda>x y. due x \<le> due y) F"
    and "\<forall>x\<in>set F. \<exists>a ty m. cb x = AddLogCb a ty m"
  shows "advance t u =
    (foldl (\<lambda>v x. fire x v) u F)\<lparr>clock := max (clock (foldl (\<lambda>v x. fire x v) u F)) t\<rparr>"
  using assms
proof (induction F arbitrary: u)
  case Nil
  then have "\<forall>tm\<in>set (timers u). t < due tm"
    by (auto simp add: filter_empty_conv)
  then show ?case by (simp add: advance_idle)
next
  case (Cons x F)
  from Cons.prems(1) obtain ys zs where
    ts: "timers u = ys @ x # zs" and ys: "\<forall>y\<in>set ys. \<not> due y \<le> t" and x: "due x \<le> t"
    and zs: "F = filter (\<lambda>x. due x \<le> t) zs"
    by (auto simp add: filter_eq_Cons_iff)
  have "\<forall>z\<in>set zs. due x \<le> due z"
  proof
    fix z assume z: "z \<in> set zs"
    show "due x \<le> due z"
    proof (cases "due z \<le> t")
      case True
      with z zs have "z \<in> set F" by simp
      with Cons.prems(2) show ?thesis by simp
    next
      case False
      with x show ?thesis by simp
    qed
  qed
  moreover have "\<forall>y\<in>set ys. due x < due y" using ys x by auto
  ultimately have e: "earliest (timers u) = Some x"
    unfolding ts by (intro earliest_first)
  from Cons.prems(3) obtain a ty m where c: "cb x = AddLogCb a ty m" by auto
  have "x \<notin> set ys" using ys x by auto
  then have r: "timers (fire x u) = ys @ zs"
    by (simp add: timers_fire_AddLogCb [OF c] ts remove1_append)
  have "filter (\<lambda>x. due x \<le> t) (timers (fire x u)) = F"
    using ys zs by (simp add: r)
  moreover have "sorted_wrt (\<lambda>x y. due x \<le> due y) F" using Cons.prems(2) by simp
  moreover have "\<forall>x\<in>set F. \<exists>a ty m. cb x = AddLogCb a ty m" using Cons.prems(3) by simp
  ultimately have "advance t (fire x u) =
    (foldl (\<lambda>v x. fire x v) (fire x u) F)
      \<lparr>clock := max (clock (foldl (\<lambda>v x. fire x v) (fire x u) F)) t\<rparr>"
    by (rule Cons.IH)
  then show ?case by (simp add: advance_fire [OF e x])
qed

lemma timers_mount:
  "timers (mount now g) =
     [\<lparr>due = now + 300, cb = AddLogCb ''SYSTEM'' System ''Initializing CLAWBOT Terminal v2.0.7...''\<rparr>,
      \<lparr>due = now + 800, cb = AddLogCb ''SYSTEM'' System ''Loading neural interface drivers...''\<rparr>,
      \<lparr>due = now + 1200, cb = AddLogCb ''SYSTEM'' System ''Establishing quantum-encrypted connections...''\<rparr>,
      \<lparr>due = now + 1600, cb = AddLogCb ''SYSTEM'' System ''Synchronizing agent mesh network...''\<rparr>,
      \<lparr>due = now + 2000, cb = AddLogCb ''SYSTEM'' System ''Boot sequence complete. All systems nominal.''\<rparr>,
      \<lparr>due = now + 2500, cb = BootCompleteCb\<rparr>]"
  by (simp add: mount_def split_def Let_def tickEffect_body_def timers_bootEffect generateAgents_fields)

lemma slice_last_slice_last:
  assumes "n \<le> m + length ys"
  shows "slice_last n (slice_last m xs @ ys) = slice_last n (xs @ ys)"
proof -
  have "length xs + length ys - (length xs - m + n) + (length xs - m) =
    length xs + length ys - n"
    using assms by arith
  then show ?thesis by (simp add: slice_last_def)
qed

lemma slice_last_all: "length xs \<le> n \<Longrightarrow> slice_last n xs = xs"
  by (simp add: slice_last_def)

lemma map_slice_last: "map f (slice_last n xs) = slice_last n (map f xs)"
  by (simp add: slice_last_def drop_map)

lemma length_logs_fire_AddLogCb:
  "cb tm = AddLogCb a t m \<Longrightarrow> length (logs (fire tm u)) \<le> 101"
  by (simp add: logs_fire_AddLogCb length_slice_last)

lemma foldl_fire_addlogs:
  assumes "\<forall>x\<in>set F. \<exists>a ty m. cb x = AddLogCb a ty m"
    and "sorted_wrt (\<lambda>x y. due x \<le> due y) F"
    and "length (logs u) \<le> 101"
  shows "agents (foldl (\<lambda>v x. fire x v) u F) = agents u \<and>
    bootComplete (foldl (\<lambda>v x. fire x v) u F) = bootComplete u \<and>
    rng (foldl (\<lambda>v x. fire x v) u F) = rng u \<and>
    drawn (foldl (\<lambda>v x. fire x v) u F) = drawn u + length F \<and>
    map view (logs (foldl (\<lambda>v x. fire x v) u F)) =
      slice_last 101 (map view (logs u) @
        map (\<lambda>x. (max (clock u) (due x), cb_agent (cb x), cb_type (cb x), cb_message (cb x))) F)"
  using assms
proof (induction F arbitrary: u)
  case Nil
  then show ?case by (simp add: slice_last_all)
next
  case (Cons x F)
  from Cons.prems(1) obtain a ty m where c: "cb x = AddLogCb a ty m" by auto
  let ?u = "fire x u"
  have m: "max (clock ?u) (due y) = max (clock u) (due y)" if "y \<in> set F" for y
    using Cons.prems(2) that by (auto simp add: clock_fire)
  have f: "agents ?u = agents u" "bootComplete ?u = bootComplete u" "rng ?u = rng u"
    "drawn ?u = Suc (drawn u)"
    by (simp_all add: fire_AddLogCb [OF c])
  have l: "map view (logs ?u) =
      slice_last 100 (map view (logs u)) @ [(max (clock u) (due x), a, ty, m)]"
    by (simp add: logs_fire_AddLogCb [OF c] view_def map_slice_last)
  have "agents (foldl (\<lambda>v x. fire x v) ?u F) = agents ?u \<and>
    bootComplete (foldl (\<lambda>v x. fire x v) ?u F) = bootComplete ?u \<and>
    rng (foldl (\<lambda>v x. fire x v) ?u F) = rng ?u \<and>
    drawn (foldl (\<lambda>v x. fire x v) ?u F) = drawn ?u + length F \<and>
    map view (logs (foldl (\<lambda>v x. fire x v) ?u F)) =
      slice_last 101 (map view (logs ?u) @
        map (\<lambda>x. (max (clock ?u) (due x), cb_agent (cb x), cb_type (cb x), cb_message (cb x))) F)"
    using Cons.prems by (intro Cons.IH) (simp_all add: length_logs_fire_AddLogCb [OF c])
  moreover have "map (\<lambda>x. (max (clock ?u) (due x), cb_agent (cb x), cb_type (cb x), cb_message (cb x))) F =
    map (\<lambda>x. (max (clock u) (due x), cb_agent (cb x), cb_type (cb x), cb_message (cb x))) F"
    using m by simp
  ultimately show ?case
    by (simp add: f l c slice_last_slice_last)
qed

lemma advance_addlogs_timers:
  assumes "filter (\<lambda>x. due x \<le> t) (timers u) = F"
    and "sorted_wrt (\<lambda>x y. due x \<le> due y) F"
    and "\<forall>x\<in>set F. \<exists>a ty m. cb x = AddLogCb a ty m"
  shows "timers (foldl (\<lambda>v x. fire x v) u F) = filter (\<lambda>x. \<not> due x \<le> t) (timers u)"
  using assms
proof (induction F arbitrary: u)
  case Nil
  then show ?case by (simp add: filter_empty_conv)
next
  case (Cons x F)
  from Cons.prems(1) obtain ys zs where
    ts: "timers u = ys @ x # zs" and ys: "\<forall>y\<in>set ys. \<not> due y \<le> t" and x: "due x \<le> t"
    and zs: "F = filter (\<lambda>x. due x \<le> t) zs"
    by (auto simp add: filter_eq_Cons_iff)
  from Cons.prems(3) obtain a ty m where c: "cb x = AddLogCb a ty m" by auto
  have "x \<notin> set ys" using ys x by auto
  then have r: "timers (fire x u) = ys @ zs"
    by (simp add: timers_fire_AddLogCb [OF c] ts remove1_append)
  have "filter (\<lambda>x. due x \<le> t) (timers (fire x u)) = F"
    using ys zs by (simp add: r)
  moreover have "sorted_wrt (\<lambda>x y. due x \<le> due y) F" using Cons.prems(2) by simp
  moreover have "\<forall>x\<in>set F. \<exists>a ty m. cb x = AddLogCb a ty m" using Cons.prems(3) by simp
  ultimately have "timers (foldl (\<lambda>v x. fire x v) (fire x u) F) =
    filter (\<lambda>x. \<not> due x \<le> t) (timers (fire x u))"
    by (rule Cons.IH)
  then show ?case using x by (simp add: r ts)
qed

lemma fire_clock_irrelevant:
  "max c (due tm) = max (clock u) (due tm) \<Longrightarrow> fire tm (u\<lparr>clock := c\<rparr>) = fire tm u"
  by (simp add: fire_def)

lemma advance_bump:
  assumes "\<forall>tm\<in>set (timers u). t' < due tm" "t' \<le> t"
  shows "advance t (u\<lparr>clock := max (clock u) t'\<rparr>) = advance t u"
proof (cases "earliest (timers u)")
  case None
  then show ?thesis using assms(2)
    by (simp add: advance.simps [of t] max.assoc max_absorb2)
next
  case (Some tm)
  then have "t' < due tm" using assms(1) earliest_in_set by blast
  then have "fire tm (u\<lparr>clock := max (clock u) t'\<rparr>) = fire tm u"
    by (intro fire_clock_irrelevant) simp
  with Some assms(2) show ?thesis
    by (simp add: advance.simps [of t u] advance.simps [of t "u\<lparr>clock := max (clock u) t'\<rparr>"]
        max.assoc max_absorb2)
qed

lemma advance_advance: "t' \<le> t \<Longrightarrow> advance t (advance t' u) = advance t u"
proof (induction t' u rule: advance.induct)
  case (1 t' u)
  show ?case
  proof (cases "earliest (timers u)")
    case None
    then have i: "\<forall>tm\<in>set (timers u). t' < due tm" by (simp add: earliest_None_iff)
    then show ?thesis using "1.prems" by (simp add: advance_idle [OF i] advance_bump)
  next
    case (Some tm)
    show ?thesis
    proof (cases "due tm \<le> t'")
      case True
      then have "due tm \<le> t" using "1.prems" by simp
      with "1.IH" [OF Some True "1.prems"] Some True show ?thesis
        by (simp add: advance_fire)
    next
      case False
      then have i: "\<forall>x\<in>set (timers u). t' < due x"
        using Some earliest_le by fastforce
      then show ?thesis using "1.prems" by (simp add: advance_idle [OF i] advance_bump)
    qed
  qed
qed

lemma set_slice_last: "set (slice_last n xs) \<subseteq> set xs"
  by (simp add: slice_last_def set_drop_subset)

lemma logs_addLog_sources:
  assumes "\<forall>e\<in>set (logs s). agent e = ''SYSTEM'' \<or> agent e = ''USER''"
    and "a = ''SYSTEM'' \<or> a = ''USER''"
  shows "\<forall>e\<in>set (logs (addLog a t m s)). agent e = ''SYSTEM'' \<or> agent e = ''USER''"
  using assms set_slice_last [of 100 "logs s"] by (auto simp add: logs_addLog)

lemma pre_boot_addLog:
  "pre_boot D U s \<Longrightarrow> a = ''SYSTEM'' \<or> a = ''USER'' \<Longrightarrow> pre_boot D U (addLog a t m s)"
  unfolding pre_boot_def using logs_addLog_sources [of s a t m] by simp

lemma pre_boot_setTimeout:
  "pre_boot D U s \<Longrightarrow> f = RestartDoneCb \<or> (\<exists>t m. f = AddLogCb ''SYSTEM'' t m) \<Longrightarrow>
   pre_boot D U (setTimeout f d s)"
  unfolding pre_boot_def by auto

lemma pre_boot_forEach:
  "pre_boot D U s \<Longrightarrow> \<forall>x. f x = RestartDoneCb \<or> (\<exists>t m. f x = AddLogCb ''SYSTEM'' t m) \<Longrightarrow>
   pre_boot D U (forEach (\<lambda>x i. setTimeout (f x) (g i)) k xs s)"
  by (induction xs arbitrary: k s) (simp_all add: pre_boot_setTimeout)

lemma pre_boot_tickEffect: "pre_boot D U s \<Longrightarrow> pre_boot D U (tickEffect s)"
  unfolding pre_boot_def by (simp add: timers_tickEffect)

lemma pre_boot_agents_status:
  "pre_boot D U s \<Longrightarrow> pre_boot D U (s\<lparr>agents := map (\<lambda>a. a\<lparr>status := st\<rparr>) (agents s)\<rparr>)"
  unfolding pre_boot_def by (simp add: comp_def)

lemma pre_boot_clear: "pre_boot D U s \<Longrightarrow> pre_boot D U (s\<lparr>logs := []\<rparr>)"
  unfolding pre_boot_def by simp

lemma pre_boot_handleCommand:
  assumes "pre_boot D U s"
  shows "pre_boot D U (handleCommand cmd s)"
proof -
  let ?s1 = "addLog ''USER'' Info (''$ '' @ cmd) s"
  have 1: "pre_boot D U ?s1" using assms by (simp add: pre_boot_addLog)
  have sl: "\<forall>a. statusLine a = RestartDoneCb \<or> (\<exists>t m. statusLine a = AddLogCb ''SYSTEM'' t m)"
    by (simp add: statusLine_def)
  have "pre_boot D U (forEach (\<lambda>a i. setTimeout (statusLine a) (i * 100)) 0 (agents ?s1) ?s1)"
    using 1 sl by (rule pre_boot_forEach)
  moreover have "pre_boot D U
    (forEach (\<lambda>line i. setTimeout (AddLogCb ''SYSTEM'' Info line) (i * 50)) 0 helpLines ?s1)"
    using 1 by (rule pre_boot_forEach) simp
  moreover have "pre_boot D U (tickEffect (setTimeout RestartDoneCb 3000
    ((addLog ''SYSTEM'' Warning ''Restarting all agents...'' ?s1)
      \<lparr>agents := map (\<lambda>a. a\<lparr>status := Idle\<rparr>)
         (agents (addLog ''SYSTEM'' Warning ''Restarting all agents...'' ?s1))\<rparr>)))"
  proof -
    have "pre_boot D U (addLog ''SYSTEM'' Warning ''Restarting all agents...'' ?s1)"
      using 1 by (simp add: pre_boot_addLog)
    then show ?thesis
      by (intro pre_boot_tickEffect pre_boot_setTimeout pre_boot_agents_status) simp_all
  qed
  ultimately show ?thesis
    using 1
    by (simp add: handleCommand_def Let_def pre_boot_setTimeout pre_boot_addLog pre_boot_clear)
qed

lemma pre_boot_handleSubmit: "pre_boot D U s \<Longrightarrow> pre_boot D U (handleSubmit command s)"
  by (simp add: handleSubmit_def pre_boot_handleCommand)

lemma pre_boot_fire:
  assumes "pre_boot D U u" "tm \<in> set (timers u)" "due tm < D"
  shows "pre_boot D U (fire tm u)"
proof -
  let ?u1 = "u\<lparr>timers := remove1 tm (timers u), clock := max (clock u) (due tm)\<rparr>"
  have 1: "pre_boot D U ?u1"
    using assms(1) unfolding pre_boot_def by (auto dest: in_set_remove1D)
  from assms have k: "cb tm \<noteq> TickCb" "cb tm \<noteq> BootCompleteCb"
    unfolding pre_boot_def by auto
  show ?thesis
  proof (cases "cb tm")
    case (AddLogCb a t m)
    with assms(1,2) have "a = ''SYSTEM''" unfolding pre_boot_def by auto
    with 1 AddLogCb show ?thesis by (simp add: fire_AddLogCb pre_boot_addLog)
  next
    case RestartDoneCb
    have "pre_boot D U (tickEffect (addLog ''SYSTEM'' Success ''All agents restarted successfully.''
       (?u1\<lparr>agents := map (\<lambda>a. a\<lparr>status := Active\<rparr>) (agents ?u1)\<rparr>)))"
      using 1 by (intro pre_boot_tickEffect pre_boot_addLog pre_boot_agents_status) simp_all
    with RestartDoneCb show ?thesis by (simp add: fire_def Let_def)
  qed (use k in simp_all)
qed

lemma pre_boot_advance:
  assumes "pre_boot D U s" "t < D"
  shows "pre_boot D U (advance t s)"
proof (rule advance_invariant [where P = "pre_boot D U"])
  show "pre_boot D U s" by (rule assms(1))
next
  fix u :: state and tm :: timer
  assume "pre_boot D U u" "earliest (timers u) = Some tm" "due tm \<le> t"
  then show "pre_boot D U (fire tm u)"
    using assms(2) by (intro pre_boot_fire) (auto dest: earliest_in_set)
next
  fix u :: state
  assume "pre_boot D U u"
  then show "pre_boot D U (u\<lparr>clock := max (clock u) t\<rparr>)"
    unfolding pre_boot_def by simp
qed

lemma clock_forEach_setTimeout [simp]:
  "clock (forEach (\<lambda>x i. setTimeout (f x) (g i)) k xs s) = clock s"
  by (simp add: forEach_setTimeout)

lemma clock_handleCommand: "clock (handleCommand cmd s) = clock s"
  by (simp add: handleCommand_def Let_def)

lemma clock_step: "clock s \<le> clock (step e s)"
  by (cases e) (simp_all add: handleSubmit_def clock_handleCommand clock_advance)

lemma clock_run: "clock s \<le> clock (run es s)"
proof (induction es arbitrary: s)
  case Nil
  show ?case by simp
next
  case (Cons e es)
  have "clock s \<le> clock (step e s)" by (rule clock_step)
  also have "\<dots> \<le> clock (run es (step e s))" by (rule Cons.IH)
  finally show ?case by simp
qed

lemma pre_boot_step:
  assumes "pre_boot D U s" "clock (step e s) < D"
  shows "pre_boot D U (step e s)"
proof (cases e)
  case (Submit command)
  with assms(1) show ?thesis by (simp add: pre_boot_handleSubmit)
next
  case (Elapse t)
  with assms(2) have "t < D" by (simp add: clock_advance)
  with assms(1) Elapse show ?thesis by (simp add: pre_boot_advance)
qed

lemma pre_boot_run:
  "pre_boot D U s \<Longrightarrow> clock (run es s) < D \<Longrightarrow> pre_boot D U (run es s)"
proof (induction es arbitrary: s)
  case Nil
  then show ?case by simp
next
  case (Cons e es)
  have "clock (step e s) \<le> clock (run es (step e s))" by (rule clock_run)
  with Cons.prems(2) have "clock (step e s) < D" by simp
  with Cons.prems(1) have "pre_boot D U (step e s)" by (rule pre_boot_step)
  with Cons show ?case by simp
qed

lemma pre_boot_mount:
  "pre_boot (now + 2500) (map uptime (agents (mount now g))) (mount now g)"
  unfolding pre_boot_def by (simp add: timers_mount)

lemma timers_mount_map:
  "timers (mount now g) =
     map (\<lambda>(d, m). \<lparr>due = now + d, cb = AddLogCb ''SYSTEM'' System m\<rparr>) bootMessages @
     [\<lparr>due = now + 2500, cb = BootCompleteCb\<rparr>]"
  by (simp add: timers_mount bootMessages_def)

lemma sorted_bootMessages:
  "sorted_wrt (\<lambda>x y. due x \<le> due y)
     (map (\<lambda>(d, m). \<lparr>due = now + d, cb = AddLogCb ''SYSTEM'' System m\<rparr>) bootMessages)"
  by (simp add: bootMessages_def)

lemma boot_phase:
  assumes "t < now + 2500"
  shows "map view (logs (advance t (mount now g))) =
           map (\<lambda>(d, m). (now + d, ''SYSTEM'', System, m))
             (filter (\<lambda>(d, m). now + d \<le> t) bootMessages)"
    and "timers (advance t (mount now g)) =
           map (\<lambda>(d, m). \<lparr>due = now + d, cb = AddLogCb ''SYSTEM'' System m\<rparr>)
             (filter (\<lambda>(d, m). \<not> now + d \<le> t) bootMessages) @
           [\<lparr>due = now + 2500, cb = BootCompleteCb\<rparr>]"
    and "bootComplete (advance t (mount now g)) = False"
    and "agents (advance t (mount now g)) = agents (mount now g)"
proof -
  let ?M = "mount now g"
  let ?mk = "\<lambda>(d, m). \<lparr>due = now + d, cb = AddLogCb ''SYSTEM'' System m\<rparr>"
  let ?F = "map ?mk (filter (\<lambda>(d, m). now + d \<le> t) bootMessages)"
  have F: "filter (\<lambda>x. due x \<le> t) (timers ?M) = ?F"
    using assms by (simp add: timers_mount_map filter_map comp_def split_def)
  have R: "filter (\<lambda>x. \<not> due x \<le> t) (timers ?M) =
      map ?mk (filter (\<lambda>(d, m). \<not> now + d \<le> t) bootMessages) @
      [\<lparr>due = now + 2500, cb = BootCompleteCb\<rparr>]"
    using assms by (simp add: timers_mount_map filter_map comp_def split_def)
  have "sorted_wrt (\<lambda>x y. due x \<le> due y) (filter (\<lambda>x. due x \<le> t) (map ?mk bootMessages))"
    by (intro sorted_wrt_filter sorted_bootMessages)
  then have S: "sorted_wrt (\<lambda>x y. due x \<le> due y) ?F"
    by (simp add: filter_map comp_def split_def)
  have A: "\<forall>x\<in>set ?F. \<exists>a ty m. cb x = AddLogCb a ty m" by auto
  have adv: "advance t ?M =
    (foldl (\<lambda>v x. fire x v) ?M ?F)\<lparr>clock := max (clock (foldl (\<lambda>v x. fire x v) ?M ?F)) t\<rparr>"
    using F S A by (rule advance_addlogs)
  have len: "length ?F \<le> 5"
    using length_filter_le [of "\<lambda>(d, m). now + d \<le> t" bootMessages]
    by (simp add: bootMessages_def)
  note fl = foldl_fire_addlogs [OF A S, of ?M]
  show "map view (logs (advance t ?M)) =
           map (\<lambda>(d, m). (now + d, ''SYSTEM'', System, m))
             (filter (\<lambda>(d, m). now + d \<le> t) bootMessages)"
    using fl len by (simp add: adv slice_last_all comp_def split_def)
  show "timers (advance t ?M) =
           map ?mk (filter (\<lambda>(d, m). \<not> now + d \<le> t) bootMessages) @
           [\<lparr>due = now + 2500, cb = BootCompleteCb\<rparr>]"
    using advance_addlogs_timers [OF F S A] by (simp add: adv R)
  show "bootComplete (advance t ?M) = False" using fl by (simp add: adv)
  show "agents (advance t ?M) = agents ?M" using fl by (simp add: adv)
qed

lemma boot_complete_at:
  "timers (advance (now + 2500) (mount now g)) = [\<lparr>due = now + 4000, cb = TickCb\<rparr>] \<and>
   bootComplete (advance (now + 2500) (mount now g))"
proof -
  let ?u = "advance (now + 2499) (mount now g)"
  let ?tb = "\<lparr>due = now + 2500, cb = BootCompleteCb\<rparr>"
  have t: "timers ?u = [?tb]"
    using boot_phase(2) [of "now + 2499" now g] by (simp add: bootMessages_def)
  have b: "\<not> bootComplete ?u" using boot_phase(3) [of "now + 2499" now g] by simp
  have c: "clock ?u = now + 2499" by (simp add: clock_advance)
  have e: "earliest (timers ?u) = Some ?tb" by (simp add: t)
  have f: "timers (fire ?tb ?u) = [\<lparr>due = now + 4000, cb = TickCb\<rparr>]"
    "bootComplete (fire ?tb ?u)"
    using b by (simp_all add: fire_def Let_def t c timers_tickEffect)
  have "advance (now + 2500) (mount now g) = advance (now + 2500) ?u"
    by (simp add: advance_advance)
  also have "\<dots> = advance (now + 2500) (fire ?tb ?u)"
    using e by (simp add: advance_fire)
  also have "\<dots> = (fire ?tb ?u)\<lparr>clock := max (clock (fire ?tb ?u)) (now + 2500)\<rparr>"
    by (rule advance_idle) (simp add: f)
  finally show ?thesis by (simp add: f)
qed

lemma bootComplete_advance:
  assumes "tm \<in> set (timers s)" "cb tm = BootCompleteCb" "due tm \<le> t"
  shows "bootComplete (advance t s)"
proof (rule advance_invariant [where P = "\<lambda>u. bootComplete u \<or>
    (\<exists>x\<in>set (timers u). cb x = BootCompleteCb \<and> due x \<le> t)"])
  show "bootComplete s \<or> (\<exists>x\<in>set (timers s). cb x = BootCompleteCb \<and> due x \<le> t)"
    using assms by blast
next
  fix u :: state and y :: timer
  assume p: "bootComplete u \<or> (\<exists>x\<in>set (timers u). cb x = BootCompleteCb \<and> due x \<le> t)"
  show "bootComplete (fire y u) \<or>
    (\<exists>x\<in>set (timers (fire y u)). cb x = BootCompleteCb \<and> due x \<le> t)"
  proof (cases "bootComplete u \<or> cb y = BootCompleteCb")
    case True
    then show ?thesis by (simp add: bootComplete_fire)
  next
    case False
    with p obtain x where x: "x \<in> set (timers u)" "cb x = BootCompleteCb" "due x \<le> t" by blast
    with False have "x \<noteq> y" by auto
    with x have "x \<in> set (timers (fire y u))" by (simp add: timers_fire_kept)
    with x show ?thesis by blast
  qed
next
  fix u :: state
  assume "bootComplete u \<or> (\<exists>x\<in>set (timers u). cb x = BootCompleteCb \<and> due x \<le> t)"
    and "\<forall>tm\<in>set (timers u). t < due tm"
  then show "bootComplete (u\<lparr>clock := max (clock u) t\<rparr>)" by fastforce
qed

section \<open>Facts about the status lines and the length of the log\<close>

lemma sorted_wrt_enumerate:
  "sorted_wrt (\<lambda>x y. fst x \<le> fst y) (enumerate k xs)"
proof -
  have "sorted_wrt (\<le>) (map fst (enumerate k xs))" by simp
  then show ?thesis unfolding sorted_wrt_map .
qed

lemma status_lines:
  assumes "trim (toLowerCase cmd) = ''status'' \<or> trim (toLowerCase cmd) = ''ls''"
    and "\<forall>tm\<in>set (timers s). t < due tm"
  shows "map view (logs (advance t (handleCommand cmd s))) =
    slice_last 101
      (map view (logs s) @ (clock s, ''USER'', Info, ''$ '' @ cmd) #
       map (\<lambda>(i, a). (clock s + i * 100, cb_agent (statusLine a), cb_type (statusLine a),
                        cb_message (statusLine a)))
         (filter (\<lambda>(i, a). clock s + i * 100 \<le> t) (enumerate 0 (agents s))))"
proof -
  let ?s' = "handleCommand cmd s"
  let ?mk = "\<lambda>(i, a). \<lparr>due = clock s + i * 100, cb = statusLine a\<rparr>"
  let ?P = "\<lambda>(i, a). clock s + i * 100 \<le> t"
  let ?F = "map ?mk (filter ?P (enumerate 0 (agents s)))"
  have tm: "timers ?s' = timers s @ map ?mk (enumerate 0 (agents s))"
    by (simp add: handleCommand_status [OF assms(1)] forEach_setTimeout)
  have lg: "logs ?s' = logs (addLog ''USER'' Info (''$ '' @ cmd) s)"
    by (simp add: handleCommand_status [OF assms(1)] forEach_setTimeout)
  have ck: "clock ?s' = clock s" by (simp add: clock_handleCommand)
  have "filter (\<lambda>x. due x \<le> t) (timers s) = []"
    using assms(2) by (auto simp add: filter_empty_conv)
  then have F: "filter (\<lambda>x. due x \<le> t) (timers ?s') = ?F"
    by (simp add: tm filter_map comp_def split_def)
  have "sorted_wrt (\<lambda>x y. fst x \<le> fst y) (filter ?P (enumerate 0 (agents s)))"
    by (intro sorted_wrt_filter sorted_wrt_enumerate)
  then have S: "sorted_wrt (\<lambda>x y. due x \<le> due y) ?F"
    by (simp add: sorted_wrt_map split_def)
  have A: "\<forall>x\<in>set ?F. \<exists>a ty m. cb x = AddLogCb a ty m"
    by (auto simp add: statusLine_def)
  have adv: "advance t ?s' =
    (foldl (\<lambda>v x. fire x v) ?s' ?F)\<lparr>clock := max (clock (foldl (\<lambda>v x. fire x v) ?s' ?F)) t\<rparr>"
    using F S A by (rule advance_addlogs)
  have len: "length (logs ?s') \<le> 101" by (simp add: lg length_logs_addLog)
  have v: "map view (logs ?s') =
    slice_last 100 (map view (logs s)) @ [(clock s, ''USER'', Info, ''$ '' @ cmd)]"
    by (simp add: lg logs_addLog view_def map_slice_last)
  have "map view (logs (foldl (\<lambda>v x. fire x v) ?s' ?F)) =
      slice_last 101 (map view (logs ?s') @
        map (\<lambda>x. (max (clock ?s') (due x), cb_agent (cb x), cb_type (cb x), cb_message (cb x))) ?F)"
    using foldl_fire_addlogs [OF A S len] by blast
  then show ?thesis
    by (simp add: adv v ck comp_def split_def slice_last_slice_last)
qed

lemma length_logs_tick: "length (logs (snd (tick s))) \<le> max (length (logs s)) 101"
proof -
  consider "logs (snd (tick s)) = logs s"
    | a t m v where "logs (snd (tick s)) = logs (addLog a t m v)" "logs v = logs s"
    using tick_cases [of s] by fastforce
  then show ?thesis
  proof cases
    case 1
    then show ?thesis by simp
  next
    case 2
    then show ?thesis by (simp add: length_logs_addLog)
  qed
qed

lemma length_logs_fire:
  assumes "length (logs s) \<le> 101"
  shows "length (logs (fire tm s)) \<le> 101"
proof (cases "cb tm")
  case (AddLogCb a t m)
  then show ?thesis by (simp add: length_logs_fire_AddLogCb)
next
  case BootCompleteCb
  with assms show ?thesis by (simp add: logs_fire_BootCompleteCb)
next
  case RestartDoneCb
  then show ?thesis by (simp add: logs_fire_RestartDoneCb length_slice_last)
next
  case TickCb
  let ?u = "s\<lparr>timers := remove1 tm (timers s), clock := max (clock s) (due tm)\<rparr>"
  have "logs (fire tm s) = logs (snd (tick ?u))"
    using TickCb by (simp add: fire_def Let_def split_def setInterval_def)
  with length_logs_tick [of ?u] assms show ?thesis by simp
qed

lemma length_logs_advance:
  assumes "length (logs s) \<le> 101"
  shows "length (logs (advance t s)) \<le> 101"
  by (rule advance_invariant [where P = "\<lambda>u. length (logs u) \<le> 101"])
    (simp_all add: assms length_logs_fire)

lemma logs_forEach_setTimeout [simp]:
  "logs (forEach (\<lambda>x i. setTimeout (f x) (g i)) k xs s) = logs s"
  by (simp add: forEach_setTimeout)

lemma length_logs_handleCommand: "length (logs (handleCommand cmd s)) \<le> 101"
  by (simp add: handleCommand_def Let_def length_logs_addLog)

lemma length_logs_step:
  "length (logs s) \<le> 101 \<Longrightarrow> length (logs (step e s)) \<le> 101"
  by (cases e) (simp_all add: handleSubmit_def length_logs_handleCommand length_logs_advance)

lemma length_logs_run:
  "length (logs s) \<le> 101 \<Longrightarrow> length (logs (run es s)) \<le> 101"
  by (induction es arbitrary: s) (simp_all add: length_logs_step)

lemma lower_x: "trim (toLowerCase ''x'') = ''x''" "trim ''x'' = ''x''"
  by code_simp+

lemma length_logs_submit_x:
  "length (logs s) \<le> 101 \<Longrightarrow>
   length (logs (handleSubmit ''x'' s)) = min (length (logs s) + 2) 101"
  by (simp add: handleSubmit_def lower_x handleCommand_unknown length_logs_addLog)

lemma length_logs_run_x:
  "length (logs s) \<le> 101 \<Longrightarrow>
   length (logs (run (replicate n (Submit ''x'')) s)) = min (length (logs s) + 2 * n) 101"
proof (induction n arbitrary: s)
  case 0
  then show ?case by simp
next
  case (Suc n)
  have "length (logs (handleSubmit ''x'' s)) \<le> 101"
    using Suc.prems by (simp add: length_logs_submit_x)
  from Suc.IH [OF this] Suc.prems show ?case
    by (simp add: length_logs_submit_x)
qed

section \<open>Facts about sessions\<close>

lemma clamped_ticked: "ticked now a b \<Longrightarrow> clamped b"
  by (auto simp add: ticked_def tickAgent_def clamped_def)

lemma clamped_tick: "a \<in> set (agents (snd (tick s))) \<Longrightarrow> clamped a"
  using tick_ticked [of s]
  by (auto simp add: list_all2_conv_all_nth in_set_conv_nth clamped_ticked)

lemma floor_percent: "0 \<le> Math_floor (val d * 100) \<and> Math_floor (val d * 100) \<le> 100"
proof -
  have "val d * 100 < 100" using val_range [of d] by simp
  then have "\<lfloor>val d * 100\<rfloor> < 100" by (simp add: floor_less_iff)
  moreover have "0 \<le> \<lfloor>val d * 100\<rfloor>" using val_range [of d] by simp
  ultimately show ?thesis by (simp add: Math_floor_def)
qed

lemma clamped_generateAgent: "clamped (fst (generateAgent i s))"
  using floor_percent [of "rng s (drawn s + 2)"] floor_percent [of "rng s (drawn s + 3)"]
  by (simp add: generateAgent_def split_def Let_def clamped_def Math_random_def
      numeral_2_eq_2 numeral_3_eq_3)

lemma clamped_generateAgents: "\<forall>a\<in>set (fst (generateAgents i n s)). clamped a"
  by (induction n arbitrary: i s) (simp_all add: split_def Let_def clamped_generateAgent)

lemma agents_mount: "agents (mount now g) =
  fst (generateAgents 0 6 \<lparr>agents = [], logs = [], bootComplete = False, timers = [],
    clock = now, rng = g, drawn = 0\<rparr>)"
  by (simp add: mount_def split_def Let_def tickEffect_body_def generateAgents_fields)

lemma clamped_mount: "\<forall>a\<in>set (agents (mount now g)). clamped a"
  by (simp add: agents_mount clamped_generateAgents)

lemma clamped_status: "clamped (a\<lparr>status := st\<rparr>) = clamped a"
  by (simp add: clamped_def)

lemma clamped_fire:
  assumes "\<forall>a\<in>set (agents u). clamped a"
  shows "\<forall>a\<in>set (agents (fire tm u)). clamped a"
proof (cases "cb tm")
  case (AddLogCb a t m)
  with assms show ?thesis by (simp add: agents_fire_AddLogCb)
next
  case BootCompleteCb
  with assms show ?thesis by (simp add: agents_fire_BootCompleteCb)
next
  case RestartDoneCb
  with assms show ?thesis by (simp add: agents_fire_RestartDoneCb clamped_status)
next
  case TickCb
  then show ?thesis by (simp add: agents_fire_TickCb clamped_tick)
qed

lemma clamped_advance:
  assumes "\<forall>a\<in>set (agents s). clamped a"
  shows "\<forall>a\<in>set (agents (advance t s)). clamped a"
  by (rule advance_invariant [where P = "\<lambda>u. \<forall>a\<in>set (agents u). clamped a"])
    (simp_all add: assms clamped_fire)

lemma agents_forEach_setTimeout [simp]:
  "agents (forEach (\<lambda>x i. setTimeout (f x) (g i)) k xs s) = agents s"
  by (simp add: forEach_setTimeout)

lemma agents_handleCommand:
  "agents (handleCommand cmd s) =
     (if trim (toLowerCase cmd) = ''restart'' then map (\<lambda>a. a\<lparr>status := Idle\<rparr>) (agents s)
      else agents s)"
  by (simp add: handleCommand_def Let_def)

lemma clamped_step:
  assumes "\<forall>a\<in>set (agents s). clamped a"
  shows "\<forall>a\<in>set (agents (step e s)). clamped a"
  using assms
  by (cases e) (simp_all add: handleSubmit_def agents_handleCommand clamped_status clamped_advance)

lemma clamped_run:
  "\<forall>a\<in>set (agents s). clamped a \<Longrightarrow> \<forall>a\<in>set (agents (run es s)). clamped a"
proof (induction es arbitrary: s)
  case Nil
  then show ?case by simp
next
  case (Cons e es)
  from Cons.prems have "\<forall>a\<in>set (agents (step e s)). clamped a" by (rule clamped_step)
  then have "\<forall>a\<in>set (agents (run es (step e s))). clamped a" by (rule Cons.IH)
  then show ?case by simp
qed

lemma uptime_fire:
  assumes "i < length (agents u)"
  shows "uptime (agents u ! i) \<le> uptime (agents (fire tm u) ! i)"
proof (cases "cb tm")
  case (AddLogCb a t m)
  then show ?thesis by (simp add: agents_fire_AddLogCb)
next
  case BootCompleteCb
  then show ?thesis by (simp add: agents_fire_BootCompleteCb)
next
  case RestartDoneCb
  with assms show ?thesis by (simp add: agents_fire_RestartDoneCb)
next
  case TickCb
  let ?u = "u\<lparr>timers := remove1 tm (timers u), clock := max (clock u) (due tm)\<rparr>"
  have "uptime (agents (snd (tick ?u)) ! i) = uptime (agents ?u ! i) + 1"
    using assms by (intro uptime_tick) simp
  with TickCb show ?thesis by (simp add: agents_fire_TickCb)
qed

lemma uptime_advance:
  assumes "i < length (agents s)"
  shows "uptime (agents s ! i) \<le> uptime (agents (advance t s) ! i)"
proof (rule advance_invariant [where P = "\<lambda>u. length (agents u) = length (agents s) \<and>
    uptime (agents s ! i) \<le> uptime (agents u ! i)"])
  show "length (agents s) = length (agents s) \<and> uptime (agents s ! i) \<le> uptime (agents s ! i)"
    by simp
next
  fix u :: state and tm :: timer
  assume p: "length (agents u) = length (agents s) \<and> uptime (agents s ! i) \<le> uptime (agents u ! i)"
  then have "uptime (agents u ! i) \<le> uptime (agents (fire tm u) ! i)"
    using assms by (intro uptime_fire) simp
  with p show "length (agents (fire tm u)) = length (agents s) \<and>
    uptime (agents s ! i) \<le> uptime (agents (fire tm u) ! i)"
    by (simp add: length_agents_fire)
next
  fix u :: state
  assume "length (agents u) = length (agents s) \<and> uptime (agents s ! i) \<le> uptime (agents u ! i)"
  then show "uptime (agents s ! i) \<le> uptime (agents (u\<lparr>clock := max (clock u) t\<rparr>) ! i)"
    by simp
qed

lemma uptime_step:
  assumes "i < length (agents s)"
  shows "length (agents (step e s)) = length (agents s) \<and>
    uptime (agents s ! i) \<le> uptime (agents (step e s) ! i)"
  using assms
  by (cases e)
    (simp_all add: handleSubmit_def agents_handleCommand length_agents_advance uptime_advance)

lemma uptime_run:
  "i < length (agents s) \<Longrightarrow>
   length (agents (run es s)) = length (agents s) \<and>
   uptime (agents s ! i) \<le> uptime (agents (run es s) ! i)"
proof (induction es arbitrary: s)
  case Nil
  then show ?case by simp
next
  case (Cons e es)
  from uptime_step [OF Cons.prems, of e]
  have l: "length (agents (step e s)) = length (agents s)"
    and u: "uptime (agents s ! i) \<le> uptime (agents (step e s) ! i)" by simp_all
  from Cons.prems l have "i < length (agents (step e s))" by simp
  from Cons.IH [OF this] l u show ?case by simp
qed

lemma intervals_tickEffect: "intervals (tickEffect s) \<le> Suc 0"
  by (simp add: intervals_def timers_tickEffect)

lemma filter_remove1_le: "length (filter P (remove1 x xs)) \<le> length (filter P xs)"
  by (induction xs) auto

lemma intervals_fire:
  assumes "intervals s \<le> Suc 0" "tm \<in> set (timers s)"
  shows "intervals (fire tm s) \<le> Suc 0"
proof (cases "cb tm")
  case (AddLogCb a t m)
  have "intervals (fire tm s) \<le> intervals s"
    by (simp add: intervals_def timers_fire_AddLogCb [OF AddLogCb] filter_remove1_le)
  with assms(1) show ?thesis by simp
next
  case BootCompleteCb
  have "length (filter (\<lambda>t. cb t = TickCb) (remove1 tm (timers s))) \<le> intervals s"
    by (simp add: intervals_def filter_remove1_le)
  with assms(1) BootCompleteCb intervals_tickEffect show ?thesis
    by (simp add: fire_def Let_def intervals_def)
next
  case RestartDoneCb
  then show ?thesis by (simp add: fire_RestartDoneCb intervals_tickEffect)
next
  case TickCb
  have "length (filter (\<lambda>t. cb t = TickCb) (remove1 tm (timers s))) < intervals s"
    unfolding intervals_def using assms(2) TickCb by (intro filter_remove1_length) simp_all
  with assms(1) have "length (filter (\<lambda>t. cb t = TickCb) (remove1 tm (timers s))) = 0"
    by linarith
  then have "filter (\<lambda>t. cb t = TickCb) (remove1 tm (timers s)) = []" by simp
  with TickCb intervals_tickEffect show ?thesis
    by (simp add: fire_def Let_def split_def setInterval_def intervals_def)
qed

lemma intervals_advance:
  assumes "intervals s \<le> Suc 0"
  shows "intervals (advance t s) \<le> Suc 0"
proof (rule advance_invariant [where P = "\<lambda>u. intervals u \<le> Suc 0"])
  show "intervals s \<le> Suc 0" by (rule assms)
next
  fix u :: state and tm :: timer
  assume "intervals u \<le> Suc 0" "earliest (timers u) = Some tm"
  then show "intervals (fire tm u) \<le> Suc 0"
    by (intro intervals_fire earliest_in_set)
next
  fix u :: state
  assume "intervals u \<le> Suc 0"
  then show "intervals (u\<lparr>clock := max (clock u) t\<rparr>) \<le> Suc 0"
    by (simp add: intervals_def)
qed

lemma intervals_handleCommand:
  assumes "intervals s \<le> Suc 0"
  shows "intervals (handleCommand cmd s) \<le> Suc 0"
proof (cases "trim (toLowerCase cmd) = ''restart''")
  case True
  then show ?thesis by (simp add: handleCommand_restart intervals_tickEffect)
next
  case False
  have "filter (\<lambda>t. cb t = TickCb) (timers (handleCommand cmd s)) =
    filter (\<lambda>t. cb t = TickCb) (timers s)"
    using False
    by (simp add: handleCommand_def Let_def forEach_setTimeout statusLine_def filter_map
        comp_def split_def)
  with assms show ?thesis by (simp add: intervals_def)
qed

lemma intervals_step: "intervals s \<le> Suc 0 \<Longrightarrow> intervals (step e s) \<le> Suc 0"
  by (cases e) (simp_all add: handleSubmit_def intervals_handleCommand intervals_advance)

lemma intervals_run: "intervals s \<le> Suc 0 \<Longrightarrow> intervals (run es s) \<le> Suc 0"
proof (induction es arbitrary: s)
  case Nil
  then show ?case by simp
next
  case (Cons e es)
  from Cons.prems have "intervals (step e s) \<le> Suc 0" by (rule intervals_step)
  then have "intervals (run es (step e s)) \<le> Suc 0" by (rule Cons.IH)
  then show ?case by simp
qed

lemma one_interval: "intervals (run es (mount now g)) \<le> 1"
  using intervals_run [of "mount now g" es] by (simp add: intervals_def timers_mount)

section \<open>Evaluation at the concrete state\<close>

lemma val_example [simp]: "val (Draw (9 / 10)) = 9 / 10"
  by (simp add: val_Draw)

text \<open>
  The tick on this state: the draw 0.9 selects the second agent, the type "warning" and
  the last message; the cpu of the first agent is cut off at 100, and the offline agent
  keeps its lastPing.
\<close>

lemma tick_example:
  "tick example =
    (None,
     example\<lparr>agents :=
       [\<lparr>agent_id = ''agent-0'', name = ''NEXUS-7'', status = Error,
         task = ''Running diagnostics...'', cpu = 100, memory = 6, uptime = 42,
         lastPing = 10000\<rparr>,
        \<lparr>agent_id = ''agent-1'', name = ''PHANTOM-X'', status = Offline,
         task = ''Optimizing parameters...'', cpu = 97 / 2, memory = 64, uptime = 8,
         lastPing = 8000\<rparr>],
       logs := [\<lparr>log_id = (10000, 9 / 10), timestamp = 10000, agent = ''PHANTOM-X'',
         type = Warning, message = ''Request queue depth: 90''\<rparr>],
       drawn := 13\<rparr>)"
  by (simp add: tick_def example_def example_agents_def Math_random_def split_def Let_def
      index_def Math_floor_def setAgents_tick_def addLog_def pick_def random_index_def
      logTypes_def messages_def tickAgent_def slice_last_def toString_def
      digits.simps digit_def)

text \<open>The command lines used below, lowercased and trimmed.\<close>

lemma lower_foobar: "trim (toLowerCase ''foobar'') = ''foobar''" "trim ''foobar'' = ''foobar''"
  by code_simp+

lemma lower_clear: "trim (toLowerCase '' CLEAR '') = ''clear''"
  by code_simp

lemma lower_ls: "trim (toLowerCase ''LS'') = ''ls''"
  by code_simp

lemma lower_restart: "trim (toLowerCase ''restart'') = ''restart''"
  by code_simp

lemma lower_deploy: "trim (toLowerCase ''Deploy'') = ''deploy''"
  by code_simp

section \<open>The claims about the tick\<close>

text \<open>
  Claim C1. For every simulation tick and every agent, the cpu and the memory of the
  agent after the tick lie between 0 and 100, whatever they were before the tick and
  whatever deltas were drawn. The first part is about the callback \<open>tick\<close> in any state,
  so for every value before the tick and for every stream of draws; the second part is
  the same for the interval as the scheduler fires it. The third part is the invariant
  of the data model: in every session, at every moment, the cpu and the memory of every
  agent lie between 0 and 100 (the initial values are integers from 0 to 99).
\<close>

theorem tick_clamps_cpu_memory:
  "(\<forall>a\<in>set (agents (snd (tick s))).
      0 \<le> cpu a \<and> cpu a \<le> 100 \<and> 0 \<le> memory a \<and> memory a \<le> 100) \<and>
   (cb tm = TickCb \<longrightarrow>
      (\<forall>a\<in>set (agents (fire tm s)).
         0 \<le> cpu a \<and> cpu a \<le> 100 \<and> 0 \<le> memory a \<and> memory a \<le> 100)) \<and>
   (\<forall>a\<in>set (agents (run es (mount now g))).
      0 \<le> cpu a \<and> cpu a \<le> 100 \<and> 0 \<le> memory a \<and> memory a \<le> 100)"
proof -
  have "\<forall>a\<in>set (agents (snd (tick u))). clamped a" for u
    using clamped_tick by blast
  moreover have "\<forall>a\<in>set (agents (run es (mount now g))). clamped a"
    by (intro clamped_run clamped_mount)
  ultimately show ?thesis
    by (simp add: agents_fire_TickCb clamped_def)
qed

text \<open>
  At the concrete state, the first agent has cpu 97 and the draw 0.9 adds 8: the sum 105
  is cut off at 100.
\<close>

theorem tick_clamps_cpu_memory_witness:
  "cpu (agents example ! 0) + (9 / 10 - 1 / 2) * 20 = 105 \<and>
   agents (snd (tick example)) ! 0 \<in> set (agents (snd (tick example))) \<and>
   0 \<le> cpu (agents (snd (tick example)) ! 0) \<and>
   cpu (agents (snd (tick example)) ! 0) \<le> 100 \<and>
   0 \<le> memory (agents (snd (tick example)) ! 0) \<and>
   memory (agents (snd (tick example)) ! 0) \<le> 100 \<and>
   cb \<lparr>due = 11500, cb = TickCb\<rparr> = TickCb \<and>
   agents (fire \<lparr>due = 11500, cb = TickCb\<rparr> example) ! 0 \<in>
     set (agents (fire \<lparr>due = 11500, cb = TickCb\<rparr> example)) \<and>
   cpu (agents (fire \<lparr>due = 11500, cb = TickCb\<rparr> example) ! 0) \<le> 100 \<and>
   agents (run [Elapse 4000] (mount 0 (\<lambda>n. Draw (9 / 10)))) ! 0 \<in>
     set (agents (run [Elapse 4000] (mount 0 (\<lambda>n. Draw (9 / 10))))) \<and>
   cpu (agents (run [Elapse 4000] (mount 0 (\<lambda>n. Draw (9 / 10)))) ! 0) \<le> 100"
proof -
  let ?tm = "\<lparr>due = 11500, cb = TickCb\<rparr>"
  let ?r = "run [Elapse 4000] (mount 0 (\<lambda>n. Draw (9 / 10)))"
  note c = tick_clamps_cpu_memory [of example ?tm "[Elapse 4000]" 0 "\<lambda>n. Draw (9 / 10)"]
  have m1: "agents (snd (tick example)) ! 0 \<in> set (agents (snd (tick example)))"
    by (simp add: tick_example)
  have "length (agents (fire ?tm example)) = 2"
    by (simp add: length_agents_fire example_def example_agents_def)
  then have m2: "agents (fire ?tm example) ! 0 \<in> set (agents (fire ?tm example))"
    by simp
  have "length (agents ?r) = 6" by (simp add: length_agents_advance)
  then have m3: "agents ?r ! 0 \<in> set (agents ?r)" by simp
  have "cpu (agents example ! 0) + (9 / 10 - 1 / 2) * 20 = 105"
    by (simp add: example_def example_agents_def)
  with c m1 m2 m3 show ?thesis by simp
qed

text \<open>
  Claim C7. For every agent and every tick, the uptime after the tick is the uptime
  before the tick plus exactly 1, for the callback \<open>tick\<close> and for the interval as the
  scheduler fires it; after \<open>n\<close> ticks it has grown by \<open>n\<close>. So it never decreases: in
  every session the uptime of an agent is at least what it was at the start, since
  nothing but the tick changes it. Agents are matched by their position in the
  roster, which no operation changes.
\<close>

theorem tick_increments_uptime:
  "i < length (agents s) \<Longrightarrow>
   uptime (agents (snd (tick s)) ! i) = uptime (agents s ! i) + 1 \<and>
   uptime (agents s ! i) \<le> uptime (agents (snd (tick s)) ! i) \<and>
   uptime (agents (((\<lambda>u. snd (tick u)) ^^ n) s) ! i) = uptime (agents s ! i) + int n \<and>
   (cb tm = TickCb \<longrightarrow> uptime (agents (fire tm s) ! i) = uptime (agents s ! i) + 1) \<and>
   uptime (agents s ! i) \<le> uptime (agents (run es s) ! i)"
proof -
  assume i: "i < length (agents s)"
  have "uptime (agents (((\<lambda>u. snd (tick u)) ^^ n) s) ! i) = uptime (agents s ! i) + int n"
  proof (induction n)
    case 0
    show ?case by simp
  next
    case (Suc n)
    have "i < length (agents (((\<lambda>u. snd (tick u)) ^^ n) s))"
      using i by (simp add: length_agents_ticks)
    then show ?case using Suc by (simp add: uptime_tick)
  qed
  moreover have "uptime (agents (fire tm s) ! i) = uptime (agents s ! i) + 1" if "cb tm = TickCb"
    using i that by (simp add: agents_fire_TickCb uptime_tick)
  moreover have "uptime (agents s ! i) \<le> uptime (agents (run es s) ! i)"
    using uptime_run [OF i] by simp
  ultimately show ?thesis using i by (simp add: uptime_tick)
qed

theorem tick_increments_uptime_witness:
  "(1::nat) < length (agents example) \<and> uptime (agents example ! 1) = 7 \<and>
   uptime (agents (snd (tick example)) ! 1) = 7 + 1 \<and>
   uptime (agents example ! 1) \<le> uptime (agents (snd (tick example)) ! 1) \<and>
   uptime (agents (((\<lambda>u. snd (tick u)) ^^ 3) example) ! 1) = 7 + 3 \<and>
   cb \<lparr>due = 11500, cb = TickCb\<rparr> = TickCb \<and>
   uptime (agents (fire \<lparr>due = 11500, cb = TickCb\<rparr> example) ! 1) = 7 + 1 \<and>
   7 \<le> uptime (agents (run [Submit ''restart'', Elapse 20000] example) ! 1)"
proof -
  have l: "(1::nat) < length (agents example)"
    by (simp add: example_def example_agents_def)
  have u: "uptime (agents example ! 1) = 7"
    by (simp add: example_def example_agents_def)
  from l u tick_increments_uptime [OF l, of 3 "\<lparr>due = 11500, cb = TickCb\<rparr>"
      "[Submit ''restart'', Elapse 20000]"]
  show ?thesis by simp
qed

text \<open>
  Claim C10. A tick changes only the cpu, memory, uptime and lastPing of an agent: the
  id, name, status and task of every agent are the same after every tick, and so is
  the size of the roster.
\<close>

theorem tick_preserves_identity:
  "i < length (agents s) \<Longrightarrow>
   length (agents (snd (tick s))) = length (agents s) \<and>
   agent_id (agents (snd (tick s)) ! i) = agent_id (agents s ! i) \<and>
   name (agents (snd (tick s)) ! i) = name (agents s ! i) \<and>
   status (agents (snd (tick s)) ! i) = status (agents s ! i) \<and>
   task (agents (snd (tick s)) ! i) = task (agents s ! i)"
  using tick_ticked [of s]
  by (auto simp: list_all2_conv_all_nth ticked_def tickAgent_def)

theorem tick_preserves_identity_witness:
  "(0::nat) < length (agents example) \<and>
   length (agents (snd (tick example))) = length (agents example) \<and>
   agent_id (agents (snd (tick example)) ! 0) = agent_id (agents example ! 0) \<and>
   name (agents (snd (tick example)) ! 0) = name (agents example ! 0) \<and>
   status (agents (snd (tick example)) ! 0) = status (agents example ! 0) \<and>
   task (agents (snd (tick example)) ! 0) = task (agents example ! 0) \<and>
   cpu (agents (snd (tick example)) ! 0) \<noteq> cpu (agents example ! 0)"
proof -
  have l: "(0::nat) < length (agents example)"
    by (simp add: example_def example_agents_def)
  have "cpu (agents (snd (tick example)) ! 0) \<noteq> cpu (agents example ! 0)"
    by (simp add: tick_example) (simp add: example_def example_agents_def)
  with l tick_preserves_identity [OF l] show ?thesis by simp
qed

section \<open>The claim about the bound of the log\<close>

text \<open>
  Claim C2, as the specification states it: after any append the log has at most 100
  entries. The append keeps up to 100 previous entries and puts the new one behind
  them: when the user submits the unknown command \<open>x\<close> 51 times after mounting, each
  time appending the echo and the error entry, the log has 101 entries.
\<close>

theorem log_exceeds_100:
  "\<not> length (logs (run (replicate 51 (Submit ''x'')) (mount 0 (\<lambda>n. Draw 0)))) \<le> 100"
  by (simp add: length_logs_run_x)

text \<open>
  Claim C2, as amended. After any append of a log entry the log has at most 101
  entries: the last 100 entries of the previous log, oldest dropped first, followed by
  the new entry. So the log has at most 101 entries at every moment of every session.
\<close>

theorem addLog_bound:
  "length (logs (addLog a t m s)) = min (length (logs s)) 100 + 1 \<and>
   length (logs (addLog a t m s)) \<le> 101 \<and>
   butlast (logs (addLog a t m s)) = drop (length (logs s) - 100) (logs s) \<and>
   view (last (logs (addLog a t m s))) = (clock s, a, t, m) \<and>
   length (logs (run es (mount now g))) \<le> 101"
proof -
  have "length (logs (run es (mount now g))) \<le> 101"
    by (rule length_logs_run) simp
  then show ?thesis
    by (simp add: logs_addLog length_slice_last view_def) (simp add: slice_last_def)
qed

section \<open>The claims about the command interpreter\<close>

text \<open>
  Claim C4. For every text whose lowercased, trimmed form is none of the keywords
  status, ls, deploy, restart, scan, help and clear, the interpreter produces exactly two
  log entries: the echo \<open>$ <text>\<close> from "USER" with type "info", then an entry of type
  "error" whose message is \<open>Unknown command: <text>. Type 'help' for available commands.\<close>
  Nothing else changes: no timer is scheduled and the roster is as before. The two
  entries stand behind the last 99 entries of the previous log. The form hands every
  line that is not empty after \<open>trim\<close> to the interpreter as it is; a line that is
  empty after \<open>trim\<close> never reaches the interpreter, \<open>handleSubmit\<close> drops it.
\<close>

theorem unknown_command:
  assumes "trim (toLowerCase cmd) \<notin>
             {''status'', ''ls'', ''deploy'', ''restart'', ''scan'', ''help'', ''clear''}"
  shows "logs (handleCommand cmd s) =
           slice_last 99 (logs s) @
           [\<lparr>log_id = (clock s, val (rng s (drawn s))), timestamp = clock s, agent = ''USER'',
             type = Info, message = ''$ '' @ cmd\<rparr>,
            \<lparr>log_id = (clock s, val (rng s (Suc (drawn s)))), timestamp = clock s,
             agent = ''SYSTEM'', type = ErrorLog,
             message = ''Unknown command: '' @ cmd @ ''. Type 'help' for available commands.''\<rparr>] \<and>
         agents (handleCommand cmd s) = agents s \<and>
         timers (handleCommand cmd s) = timers s \<and>
         bootComplete (handleCommand cmd s) = bootComplete s \<and>
         (trim cmd \<noteq> [] \<longrightarrow> handleSubmit cmd s = handleCommand cmd s)"
  using assms
  by (simp add: handleCommand_unknown logs_addLog slice_last_append1 unknownMessage_def
      handleSubmit_def)

theorem unknown_command_witness:
  "trim (toLowerCase ''foobar'') \<notin>
     {''status'', ''ls'', ''deploy'', ''restart'', ''scan'', ''help'', ''clear''} \<and>
   trim ''foobar'' \<noteq> [] \<and>
   logs (handleSubmit ''foobar'' example) =
     [\<lparr>log_id = (10000, 9 / 10), timestamp = 10000, agent = ''USER'', type = Info,
       message = ''$ foobar''\<rparr>,
      \<lparr>log_id = (10000, 9 / 10), timestamp = 10000, agent = ''SYSTEM'', type = ErrorLog,
       message = ''Unknown command: foobar. Type 'help' for available commands.''\<rparr>] \<and>
   agents (handleCommand ''foobar'' example) = agents example \<and>
   timers (handleCommand ''foobar'' example) = timers example"
proof -
  have k: "trim (toLowerCase ''foobar'') \<notin>
     {''status'', ''ls'', ''deploy'', ''restart'', ''scan'', ''help'', ''clear''}"
    by (simp add: lower_foobar)
  have n: "trim ''foobar'' \<noteq> []" by (simp add: lower_foobar)
  from k n unknown_command [OF k, of example] show ?thesis
    by (simp add: example_def slice_last_def)
qed

text \<open>
  Claim C5. The command \<open>clear\<close> empties the whole log in the same step: the log has
  length 0 afterwards, no entry is produced for the clear itself, and the echo
  \<open>$ clear\<close> that the same call has just appended is removed with the rest.
\<close>

theorem clear_command:
  assumes "trim (toLowerCase cmd) = ''clear''"
  shows "logs (handleCommand cmd s) = [] \<and>
         agents (handleCommand cmd s) = agents s \<and>
         timers (handleCommand cmd s) = timers s \<and>
         bootComplete (handleCommand cmd s) = bootComplete s"
  using assms by (simp add: handleCommand_clear)

theorem clear_command_witness:
  "trim (toLowerCase '' CLEAR '') = ''clear'' \<and>
   logs (snd (tick example)) \<noteq> [] \<and>
   logs (handleCommand '' CLEAR '' (snd (tick example))) = [] \<and>
   agents (handleCommand '' CLEAR '' (snd (tick example))) = agents (snd (tick example))"
  using clear_command [OF lower_clear, of "snd (tick example)"]
  by (simp add: lower_clear tick_example)

text \<open>
  Claim C8. The commands \<open>status\<close> and \<open>ls\<close> schedule, for each agent in the order of the
  roster, one callback due (index times 100) milliseconds after the command; when it
  fires, the callback appends one log line from "SYSTEM" that reports the name, the
  status in upper case, the rounded cpu and the rounded memory of the agent as they
  were when the command was given, with type "error" if that status is "error" and
  "info" otherwise. With no input and nothing else due by the time \<open>t\<close>, the terminal
  shows at \<open>t\<close> the previous log, the echo, and the lines of exactly the agents whose
  delay has passed, in the order of the roster (the last 101 entries of all that).
\<close>

theorem status_command:
  assumes "trim (toLowerCase cmd) = ''status'' \<or> trim (toLowerCase cmd) = ''ls''"
  shows "timers (handleCommand cmd s) =
           timers s @
           map (\<lambda>(i, a).
                 \<lparr>due = clock s + i * 100,
                  cb = AddLogCb ''SYSTEM'' (if status a = Error then ErrorLog else Info)
                         (name a @ '': '' @ toUpperCase (status_string (status a)) @
                          '' | CPU: '' @ toString (Math_round (cpu a)) @
                          ''% | MEM: '' @ toString (Math_round (memory a)) @ ''%'')\<rparr>)
               (enumerate 0 (agents s)) \<and>
         agents (handleCommand cmd s) = agents s \<and>
         (\<forall>tm a t m u. cb tm = AddLogCb a t m \<longrightarrow>
            logs (fire tm u) =
              slice_last 100 (logs u) @
              [\<lparr>log_id = (max (clock u) (due tm), val (rng u (drawn u))),
                timestamp = max (clock u) (due tm), agent = a, type = t, message = m\<rparr>]) \<and>
         (\<forall>t. (\<forall>tm\<in>set (timers s). t < due tm) \<longrightarrow>
            map view (logs (advance t (handleCommand cmd s))) =
              slice_last 101
                (map view (logs s) @ (clock s, ''USER'', Info, ''$ '' @ cmd) #
                 map (\<lambda>(i, a).
                       (clock s + i * 100, ''SYSTEM'', if status a = Error then ErrorLog else Info,
                        name a @ '': '' @ toUpperCase (status_string (status a)) @
                        '' | CPU: '' @ toString (Math_round (cpu a)) @
                        ''% | MEM: '' @ toString (Math_round (memory a)) @ ''%''))
                   (filter (\<lambda>(i, a). clock s + i * 100 \<le> t) (enumerate 0 (agents s)))))"
proof -
  have "map view (logs (advance t (handleCommand cmd s))) =
      slice_last 101
        (map view (logs s) @ (clock s, ''USER'', Info, ''$ '' @ cmd) #
         map (\<lambda>(i, a).
               (clock s + i * 100, ''SYSTEM'', if status a = Error then ErrorLog else Info,
                name a @ '': '' @ toUpperCase (status_string (status a)) @
                '' | CPU: '' @ toString (Math_round (cpu a)) @
                ''% | MEM: '' @ toString (Math_round (memory a)) @ ''%''))
           (filter (\<lambda>(i, a). clock s + i * 100 \<le> t) (enumerate 0 (agents s))))"
    if "\<forall>tm\<in>set (timers s). t < due tm" for t
    using status_lines [OF assms that] by (simp add: statusLine_def)
  then show ?thesis
    using assms
    by (simp add: handleCommand_status forEach_setTimeout statusLine_def logs_fire_AddLogCb)
qed

theorem status_command_witness:
  "(trim (toLowerCase ''LS'') = ''status'' \<or> trim (toLowerCase ''LS'') = ''ls'') \<and>
   timers example = [\<lparr>due = 11500, cb = TickCb\<rparr>] \<and>
   timers (handleCommand ''LS'' example) =
     [\<lparr>due = 11500, cb = TickCb\<rparr>,
      \<lparr>due = 10000, cb = AddLogCb ''SYSTEM'' ErrorLog ''NEXUS-7: ERROR | CPU: 97% | MEM: 2%''\<rparr>,
      \<lparr>due = 10100, cb = AddLogCb ''SYSTEM'' Info ''PHANTOM-X: OFFLINE | CPU: 41% | MEM: 60%''\<rparr>] \<and>
   map view (logs (advance 10099 (handleCommand ''LS'' example))) =
     [(10000, ''USER'', Info, ''$ LS''),
      (10000, ''SYSTEM'', ErrorLog, ''NEXUS-7: ERROR | CPU: 97% | MEM: 2%'')] \<and>
   map view (logs (advance 10100 (handleCommand ''LS'' example))) =
     [(10000, ''USER'', Info, ''$ LS''),
      (10000, ''SYSTEM'', ErrorLog, ''NEXUS-7: ERROR | CPU: 97% | MEM: 2%''),
      (10100, ''SYSTEM'', Info, ''PHANTOM-X: OFFLINE | CPU: 41% | MEM: 60%'')]"
proof -
  have k: "trim (toLowerCase ''LS'') = ''status'' \<or> trim (toLowerCase ''LS'') = ''ls''"
    by (simp add: lower_ls)
  have r: "toString (Math_round 97) = ''97''" "toString (Math_round 2) = ''2''"
    "toString (Math_round (81 / 2)) = ''41''" "toString (Math_round 60) = ''60''"
    by (simp_all add: toString_def Math_round_def digits.simps digit_def)
  have e: "timers example = [\<lparr>due = 11500, cb = TickCb\<rparr>]" "clock example = 10000"
    "logs example = []" "agents example = example_agents"
    by (simp_all add: example_def)
  note c = status_command [OF k, of example]
  from c have tr: "\<forall>t. (\<forall>tm\<in>set (timers example). t < due tm) \<longrightarrow>
            map view (logs (advance t (handleCommand ''LS'' example))) =
              slice_last 101
                (map view (logs example) @ (clock example, ''USER'', Info, ''$ '' @ ''LS'') #
                 map (\<lambda>(i, a).
                       (clock example + i * 100, ''SYSTEM'', if status a = Error then ErrorLog else Info,
                        name a @ '': '' @ toUpperCase (status_string (status a)) @
                        '' | CPU: '' @ toString (Math_round (cpu a)) @
                        ''% | MEM: '' @ toString (Math_round (memory a)) @ ''%''))
                   (filter (\<lambda>(i, a). clock example + i * 100 \<le> t) (enumerate 0 (agents example))))"
    by blast
  have t1: "map view (logs (advance 10099 (handleCommand ''LS'' example))) =
     [(10000, ''USER'', Info, ''$ LS''),
      (10000, ''SYSTEM'', ErrorLog, ''NEXUS-7: ERROR | CPU: 97% | MEM: 2%'')]"
    using tr [rule_format, of 10099]
    by (simp add: e example_agents_def status_string_upper r slice_last_def)
  have t2: "map view (logs (advance 10100 (handleCommand ''LS'' example))) =
     [(10000, ''USER'', Info, ''$ LS''),
      (10000, ''SYSTEM'', ErrorLog, ''NEXUS-7: ERROR | CPU: 97% | MEM: 2%''),
      (10100, ''SYSTEM'', Info, ''PHANTOM-X: OFFLINE | CPU: 41% | MEM: 60%'')]"
    using tr [rule_format, of 10100]
    by (simp add: e example_agents_def status_string_upper r slice_last_def)
  have "timers (handleCommand ''LS'' example) =
     [\<lparr>due = 11500, cb = TickCb\<rparr>,
      \<lparr>due = 10000, cb = AddLogCb ''SYSTEM'' ErrorLog ''NEXUS-7: ERROR | CPU: 97% | MEM: 2%''\<rparr>,
      \<lparr>due = 10100, cb = AddLogCb ''SYSTEM'' Info ''PHANTOM-X: OFFLINE | CPU: 41% | MEM: 60%''\<rparr>]"
    using c by (simp add: e example_agents_def status_string_upper r)
  with k e t1 t2 show ?thesis by simp
qed

text \<open>
  Claim C3. The command \<open>restart\<close> sets the status of every agent to "idle" and emits a
  "warning" log in the same step, and schedules a callback due 3000 milliseconds later
  that sets every status to "active" and emits a "success" log. With no input from the
  user in between, every agent is still idle at every time before those 3000
  milliseconds are over (provided no earlier restart is pending) and every agent is
  active at every time from then on.
\<close>

theorem restart_command:
  assumes "trim (toLowerCase cmd) = ''restart''"
  shows "agents (handleCommand cmd s) = map (\<lambda>a. a\<lparr>status := Idle\<rparr>) (agents s) \<and>
    logs (handleCommand cmd s) =
      slice_last 99 (logs s) @
      [\<lparr>log_id = (clock s, val (rng s (drawn s))), timestamp = clock s, agent = ''USER'',
        type = Info, message = ''$ '' @ cmd\<rparr>,
       \<lparr>log_id = (clock s, val (rng s (Suc (drawn s)))), timestamp = clock s, agent = ''SYSTEM'',
        type = Warning, message = ''Restarting all agents...''\<rparr>] \<and>
    timers (handleCommand cmd s) =
      filter (\<lambda>t. cb t \<noteq> TickCb) (timers s) @ [\<lparr>due = clock s + 3000, cb = RestartDoneCb\<rparr>] @
      (if bootComplete s then [\<lparr>due = clock s + 1500, cb = TickCb\<rparr>] else []) \<and>
    (\<forall>u. agents (fire \<lparr>due = clock s + 3000, cb = RestartDoneCb\<rparr> u) =
            map (\<lambda>a. a\<lparr>status := Active\<rparr>) (agents u) \<and>
          logs (fire \<lparr>due = clock s + 3000, cb = RestartDoneCb\<rparr> u) =
            slice_last 100 (logs u) @
            [\<lparr>log_id = (max (clock u) (clock s + 3000), val (rng u (drawn u))),
              timestamp = max (clock u) (clock s + 3000), agent = ''SYSTEM'', type = Success,
              message = ''All agents restarted successfully.''\<rparr>]) \<and>
    ((\<forall>tm\<in>set (timers s). cb tm \<noteq> RestartDoneCb) \<longrightarrow>
       (\<forall>t<clock s + 3000. \<forall>a\<in>set (agents (advance t (handleCommand cmd s))). status a = Idle)) \<and>
    (\<forall>t\<ge>clock s + 3000. \<forall>a\<in>set (agents (advance t (handleCommand cmd s))). status a = Active)"
proof -
  let ?s' = "handleCommand cmd s"
  note tm = timers_handleCommand_restart [OF assms, of s]
  have a: "agents ?s' = map (\<lambda>a. a\<lparr>status := Idle\<rparr>) (agents s)"
    by (simp add: handleCommand_restart [OF assms])
  have l: "logs ?s' =
      slice_last 99 (logs s) @
      [\<lparr>log_id = (clock s, val (rng s (drawn s))), timestamp = clock s, agent = ''USER'',
        type = Info, message = ''$ '' @ cmd\<rparr>,
       \<lparr>log_id = (clock s, val (rng s (Suc (drawn s)))), timestamp = clock s, agent = ''SYSTEM'',
        type = Warning, message = ''Restarting all agents...''\<rparr>]"
    by (simp add: handleCommand_restart [OF assms] logs_addLog slice_last_append1)
  have f: "\<forall>u. agents (fire \<lparr>due = clock s + 3000, cb = RestartDoneCb\<rparr> u) =
            map (\<lambda>a. a\<lparr>status := Active\<rparr>) (agents u) \<and>
          logs (fire \<lparr>due = clock s + 3000, cb = RestartDoneCb\<rparr> u) =
            slice_last 100 (logs u) @
            [\<lparr>log_id = (max (clock u) (clock s + 3000), val (rng u (drawn u))),
              timestamp = max (clock u) (clock s + 3000), agent = ''SYSTEM'', type = Success,
              message = ''All agents restarted successfully.''\<rparr>]"
    by (simp add: agents_fire_RestartDoneCb logs_fire_RestartDoneCb)
  have idle: "\<forall>a\<in>set (agents (advance t ?s')). status a = Idle"
    if none: "\<forall>tm\<in>set (timers s). cb tm \<noteq> RestartDoneCb" and t: "t < clock s + 3000" for t
  proof -
    have "\<forall>x\<in>set (timers ?s'). cb x = RestartDoneCb \<longrightarrow> t < due x"
      using none t by (auto simp add: tm)
    then have "map status (agents (advance t ?s')) = map status (agents ?s')"
      by (rule map_status_advance)
    then show ?thesis
      by (simp add: a all_status_map length_agents_advance comp_def map_replicate_const)
  qed
  have active: "\<forall>a\<in>set (agents (advance t ?s')). status a = Active" if "clock s + 3000 \<le> t" for t
    by (rule active_after_restart [where tm = "\<lparr>due = clock s + 3000, cb = RestartDoneCb\<rparr>"])
      (simp_all add: tm that)
  from a l tm f idle active show ?thesis by blast
qed

theorem restart_command_witness:
  "trim (toLowerCase ''restart'') = ''restart'' \<and>
   timers example = [\<lparr>due = 11500, cb = TickCb\<rparr>] \<and>
   map status (agents example) = [Error, Offline] \<and>
   map status (agents (handleCommand ''restart'' example)) = [Idle, Idle] \<and>
   timers (handleCommand ''restart'' example) =
     [\<lparr>due = 13000, cb = RestartDoneCb\<rparr>, \<lparr>due = 11500, cb = TickCb\<rparr>] \<and>
   map status (agents (advance 12999 (handleCommand ''restart'' example))) = [Idle, Idle] \<and>
   map status (agents (advance 13000 (handleCommand ''restart'' example))) = [Active, Active]"
proof -
  note r = restart_command [OF lower_restart, of example]
  have n: "length (agents (advance t (handleCommand ''restart'' example))) = 2" for t
    using r by (simp add: length_agents_advance example_def example_agents_def)
  have e: "timers example = [\<lparr>due = 11500, cb = TickCb\<rparr>]" "clock example = 10000"
    "bootComplete example"
    "map status (agents example) = [Error, Offline]"
    by (simp_all add: example_def example_agents_def)
  have "\<forall>t<13000. \<forall>a\<in>set (agents (advance t (handleCommand ''restart'' example))). status a = Idle"
    using r e by simp
  from this [rule_format, of 12999]
  have "\<forall>a\<in>set (agents (advance 12999 (handleCommand ''restart'' example))). status a = Idle"
    by simp
  then have i: "map status (agents (advance 12999 (handleCommand ''restart'' example))) = [Idle, Idle]"
    by (simp add: all_status_map n numeral_2_eq_2)
  have "\<forall>t\<ge>13000. \<forall>a\<in>set (agents (advance t (handleCommand ''restart'' example))). status a = Active"
    using r e by simp
  from this [rule_format, of 13000]
  have "\<forall>a\<in>set (agents (advance 13000 (handleCommand ''restart'' example))). status a = Active"
    by simp
  then have a: "map status (agents (advance 13000 (handleCommand ''restart'' example))) = [Active, Active]"
    by (simp add: all_status_map n numeral_2_eq_2)
  have "map status (agents (handleCommand ''restart'' example)) = [Idle, Idle]"
    using r by (simp add: example_def example_agents_def)
  moreover have "timers (handleCommand ''restart'' example) =
     [\<lparr>due = 13000, cb = RestartDoneCb\<rparr>, \<lparr>due = 11500, cb = TickCb\<rparr>]"
    using r e by simp
  ultimately show ?thesis using i a e lower_restart by simp
qed

text \<open>
  Claim C9. The commands \<open>deploy\<close> and \<open>scan\<close> only append log entries: the command
  itself leaves the roster as it is, field by field, appends the echo and a "system"
  entry, and schedules one callback; and that callback, like every log callback,
  whenever it fires only appends its entry and leaves the roster and the boot flag as
  they are. The text "All agents updated." is only the message of the log entry.
\<close>

theorem deploy_scan_frame:
  assumes "trim (toLowerCase cmd) = ''deploy'' \<or> trim (toLowerCase cmd) = ''scan''"
  shows "agents (handleCommand cmd s) = agents s \<and>
    bootComplete (handleCommand cmd s) = bootComplete s \<and>
    timers (handleCommand cmd s) =
      timers s @
      [if trim (toLowerCase cmd) = ''deploy''
       then \<lparr>due = clock s + 2000,
             cb = AddLogCb ''SYSTEM'' Success ''Deployment successful. All agents updated.''\<rparr>
       else \<lparr>due = clock s + 2500,
             cb = AddLogCb ''SYSTEM'' Success ''Scan complete. No threats detected.''\<rparr>] \<and>
    logs (handleCommand cmd s) =
      slice_last 99 (logs s) @
      [\<lparr>log_id = (clock s, val (rng s (drawn s))), timestamp = clock s, agent = ''USER'',
        type = Info, message = ''$ '' @ cmd\<rparr>,
       \<lparr>log_id = (clock s, val (rng s (Suc (drawn s)))), timestamp = clock s, agent = ''SYSTEM'',
        type = System,
        message = (if trim (toLowerCase cmd) = ''deploy'' then ''Initiating deployment sequence...''
                   else ''Scanning network for anomalies...'')\<rparr>] \<and>
    (\<forall>tm a t m u. cb tm = AddLogCb a t m \<longrightarrow>
       agents (fire tm u) = agents u \<and>
       bootComplete (fire tm u) = bootComplete u \<and>
       timers (fire tm u) = remove1 tm (timers u) \<and>
       map view (logs (fire tm u)) =
         slice_last 100 (map view (logs u)) @ [(max (clock u) (due tm), a, t, m)])"
  using assms
  by (auto simp add: handleCommand_deploy handleCommand_scan agents_fire_AddLogCb logs_addLog
      slice_last_append1 bootComplete_fire timers_fire_AddLogCb logs_fire_AddLogCb view_def
      map_slice_last)

theorem deploy_scan_frame_witness:
  "(trim (toLowerCase ''Deploy'') = ''deploy'' \<or> trim (toLowerCase ''Deploy'') = ''scan'') \<and>
   agents (handleCommand ''Deploy'' example) = agents example \<and>
   timers (handleCommand ''Deploy'' example) =
     [\<lparr>due = 11500, cb = TickCb\<rparr>,
      \<lparr>due = 12000,
       cb = AddLogCb ''SYSTEM'' Success ''Deployment successful. All agents updated.''\<rparr>] \<and>
   cb \<lparr>due = 12000, cb = AddLogCb ''SYSTEM'' Success ''Deployment successful. All agents updated.''\<rparr> =
     AddLogCb ''SYSTEM'' Success ''Deployment successful. All agents updated.'' \<and>
   agents (fire \<lparr>due = 12000,
                 cb = AddLogCb ''SYSTEM'' Success ''Deployment successful. All agents updated.''\<rparr>
             (handleCommand ''Deploy'' example)) = agents example \<and>
   timers (fire \<lparr>due = 12000,
                 cb = AddLogCb ''SYSTEM'' Success ''Deployment successful. All agents updated.''\<rparr>
             (handleCommand ''Deploy'' example)) = [\<lparr>due = 11500, cb = TickCb\<rparr>]"
proof -
  let ?tm = "\<lparr>due = 12000,
    cb = AddLogCb ''SYSTEM'' Success ''Deployment successful. All agents updated.''\<rparr>"
  have k: "trim (toLowerCase ''Deploy'') = ''deploy'' \<or> trim (toLowerCase ''Deploy'') = ''scan''"
    by (simp add: lower_deploy)
  note d = deploy_scan_frame [OF k, of example]
  from d have "\<forall>tm a t m u. cb tm = AddLogCb a t m \<longrightarrow>
       agents (fire tm u) = agents u \<and>
       bootComplete (fire tm u) = bootComplete u \<and>
       timers (fire tm u) = remove1 tm (timers u) \<and>
       map view (logs (fire tm u)) =
         slice_last 100 (map view (logs u)) @ [(max (clock u) (due tm), a, t, m)]"
    by blast
  from this [rule_format, of ?tm "''SYSTEM''" Success
      "''Deployment successful. All agents updated.''" "handleCommand ''Deploy'' example"]
  have "agents (fire ?tm (handleCommand ''Deploy'' example)) =
      agents (handleCommand ''Deploy'' example)"
    "timers (fire ?tm (handleCommand ''Deploy'' example)) =
      remove1 ?tm (timers (handleCommand ''Deploy'' example))"
    by simp_all
  with k d show ?thesis by (simp add: lower_deploy example_def)
qed

section \<open>The claim about the boot sequence\<close>

text \<open>
  Claim C6. Mounting schedules exactly five log callbacks of type "system" from "SYSTEM",
  due 300, 800, 1200, 1600 and 2000 milliseconds later in this order, and the callback
  that sets the boot flag, due 500 milliseconds after the last of them. With no input,
  the log at any time before 2500 milliseconds consists of the boot messages that are due
  by then, in order, the flag is still false and the roster is untouched; from 2500
  milliseconds on the flag is set, and the first tick is then scheduled for 4000
  milliseconds. Whatever the user submits in between, in every session that has not
  reached 2500 milliseconds the flag is false, no interval is pending, no uptime has
  changed (so no tick has run) and every log entry is from "SYSTEM" or "USER" (so none
  comes from a tick, which logs under the name of an agent).
\<close>

theorem boot_sequence:
  "timers (mount now g) =
     [\<lparr>due = now + 300, cb = AddLogCb ''SYSTEM'' System ''Initializing CLAWBOT Terminal v2.0.7...''\<rparr>,
      \<lparr>due = now + 800, cb = AddLogCb ''SYSTEM'' System ''Loading neural interface drivers...''\<rparr>,
      \<lparr>due = now + 1200, cb = AddLogCb ''SYSTEM'' System ''Establishing quantum-encrypted connections...''\<rparr>,
      \<lparr>due = now + 1600, cb = AddLogCb ''SYSTEM'' System ''Synchronizing agent mesh network...''\<rparr>,
      \<lparr>due = now + 2000, cb = AddLogCb ''SYSTEM'' System ''Boot sequence complete. All systems nominal.''\<rparr>,
      \<lparr>due = now + 2500, cb = BootCompleteCb\<rparr>] \<and>
   logs (mount now g) = [] \<and> \<not> bootComplete (mount now g) \<and>
   (\<forall>t<now + 2500.
      map view (logs (advance t (mount now g))) =
        map (\<lambda>(d, m). (now + d, ''SYSTEM'', System, m))
          (filter (\<lambda>(d, m). now + d \<le> t) bootMessages) \<and>
      \<not> bootComplete (advance t (mount now g)) \<and>
      agents (advance t (mount now g)) = agents (mount now g)) \<and>
   (\<forall>t\<ge>now + 2500. bootComplete (advance t (mount now g))) \<and>
   timers (advance (now + 2500) (mount now g)) = [\<lparr>due = now + 4000, cb = TickCb\<rparr>] \<and>
   (\<forall>es. clock (run es (mount now g)) < now + 2500 \<longrightarrow>
      \<not> bootComplete (run es (mount now g)) \<and>
      (\<forall>tm\<in>set (timers (run es (mount now g))). cb tm \<noteq> TickCb) \<and>
      map uptime (agents (run es (mount now g))) = map uptime (agents (mount now g)) \<and>
      (\<forall>e\<in>set (logs (run es (mount now g))). agent e = ''SYSTEM'' \<or> agent e = ''USER''))"
proof -
  have "bootComplete (advance t (mount now g))" if "now + 2500 \<le> t" for t
    by (rule bootComplete_advance [where tm = "\<lparr>due = now + 2500, cb = BootCompleteCb\<rparr>"])
      (simp_all add: timers_mount that)
  moreover have "\<not> bootComplete (run es (mount now g)) \<and>
      (\<forall>tm\<in>set (timers (run es (mount now g))). cb tm \<noteq> TickCb) \<and>
      map uptime (agents (run es (mount now g))) = map uptime (agents (mount now g)) \<and>
      (\<forall>e\<in>set (logs (run es (mount now g))). agent e = ''SYSTEM'' \<or> agent e = ''USER'')"
    if "clock (run es (mount now g)) < now + 2500" for es
    using pre_boot_run [OF pre_boot_mount that] unfolding pre_boot_def by blast
  ultimately show ?thesis
    using boot_phase [of _ now g] boot_complete_at [of now g]
    by (simp add: timers_mount)
qed

theorem boot_sequence_witness:
  "(1000::nat) < 0 + 2500 \<and>
   map view (logs (advance 1000 (mount 0 (\<lambda>n. Draw (9 / 10))))) =
     [(300, ''SYSTEM'', System, ''Initializing CLAWBOT Terminal v2.0.7...''),
      (800, ''SYSTEM'', System, ''Loading neural interface drivers...'')] \<and>
   \<not> bootComplete (advance 1000 (mount 0 (\<lambda>n. Draw (9 / 10)))) \<and>
   (0::nat) + 2500 \<le> 2500 \<and>
   bootComplete (advance 2500 (mount 0 (\<lambda>n. Draw (9 / 10)))) \<and>
   clock (run [Elapse 1000, Submit ''restart'', Elapse 2400] (mount 0 (\<lambda>n. Draw (9 / 10)))) < 0 + 2500 \<and>
   \<not> bootComplete (run [Elapse 1000, Submit ''restart'', Elapse 2400] (mount 0 (\<lambda>n. Draw (9 / 10)))) \<and>
   filter (\<lambda>tm. cb tm = TickCb)
     (timers (run [Elapse 1000, Submit ''restart'', Elapse 2400] (mount 0 (\<lambda>n. Draw (9 / 10))))) = []"
proof -
  let ?g = "\<lambda>n::nat. Draw (9 / 10)"
  let ?es = "[Elapse 1000, Submit ''restart'', Elapse 2400]"
  note b = boot_sequence [of 0 ?g]
  have c: "clock (run ?es (mount 0 ?g)) < 0 + 2500"
    by (simp add: clock_advance handleSubmit_def clock_handleCommand)
  from b have "\<forall>t<0 + 2500.
      map view (logs (advance t (mount 0 ?g))) =
        map (\<lambda>(d, m). (0 + d, ''SYSTEM'', System, m))
          (filter (\<lambda>(d, m). 0 + d \<le> t) bootMessages) \<and>
      \<not> bootComplete (advance t (mount 0 ?g)) \<and>
      agents (advance t (mount 0 ?g)) = agents (mount 0 ?g)"
    by blast
  from this [rule_format, of 1000]
  have p: "map view (logs (advance 1000 (mount 0 ?g))) =
     [(300, ''SYSTEM'', System, ''Initializing CLAWBOT Terminal v2.0.7...''),
      (800, ''SYSTEM'', System, ''Loading neural interface drivers...'')]"
    "\<not> bootComplete (advance 1000 (mount 0 ?g))"
    by (simp_all add: bootMessages_def)
  from b have "\<forall>t\<ge>0 + 2500. bootComplete (advance t (mount 0 ?g))" by blast
  from this [rule_format, of 2500]
  have q: "bootComplete (advance 2500 (mount 0 ?g))" by simp
  from b have "\<forall>es. clock (run es (mount 0 ?g)) < 0 + 2500 \<longrightarrow>
      \<not> bootComplete (run es (mount 0 ?g)) \<and>
      (\<forall>tm\<in>set (timers (run es (mount 0 ?g))). cb tm \<noteq> TickCb) \<and>
      map uptime (agents (run es (mount 0 ?g))) = map uptime (agents (mount 0 ?g)) \<and>
      (\<forall>e\<in>set (logs (run es (mount 0 ?g))). agent e = ''SYSTEM'' \<or> agent e = ''USER'')"
    by blast
  from this [rule_format, OF c]
  have r: "\<not> bootComplete (run ?es (mount 0 ?g))"
    "filter (\<lambda>tm. cb tm = TickCb) (timers (run ?es (mount 0 ?g))) = []"
    by (simp_all add: filter_empty_conv)
  from c p q r show ?thesis by simp
qed

end
